theory Spec2Isabelle
  imports Complex_Main "HOL-Library.Multiset"
begin

section \<open>JavaScript numbers\<close>

text \<open>
  The engine of \<^verbatim>\<open>script.js\<close> computes on JavaScript numbers. A number is modelled
  as a finite real, one of the two infinities, or NaN. Arithmetic on finite values is the
  exact arithmetic of the reals: rounding, overflow and underflow of the 64-bit format
  are not part of the model, and zero carries no sign (a division of a nonzero finite
  value by zero takes the sign of the numerator). The special values follow the
  language: NaN is absorbing, every comparison with NaN is false, \<open>Infinity - Infinity\<close>
  and \<open>0 * Infinity\<close> and \<open>0 / 0\<close> are NaN.
\<close>

datatype jsnum = Fin real | PInf | NInf | NaN

instantiation jsnum :: "{zero, one, plus, uminus, minus, times, inverse}"
begin

definition zero_jsnum :: jsnum where
  "zero_jsnum = Fin 0"

definition one_jsnum :: jsnum where
  "one_jsnum = Fin 1"

fun plus_jsnum :: "jsnum \<Rightarrow> jsnum \<Rightarrow> jsnum" where
  "plus_jsnum NaN y = NaN"
| "plus_jsnum x NaN = NaN"
| "plus_jsnum (Fin a) (Fin b) = Fin (a + b)"
| "plus_jsnum PInf NInf = NaN"
| "plus_jsnum NInf PInf = NaN"
| "plus_jsnum PInf y = PInf"
| "plus_jsnum NInf y = NInf"
| "plus_jsnum (Fin a) y = y"

fun uminus_jsnum :: "jsnum \<Rightarrow> jsnum" where
  "uminus_jsnum (Fin a) = Fin (- a)"
| "uminus_jsnum PInf = NInf"
| "uminus_jsnum NInf = PInf"
| "uminus_jsnum NaN = NaN"

definition minus_jsnum :: "jsnum \<Rightarrow> jsnum \<Rightarrow> jsnum" where
  "minus_jsnum x y = x + (- y)"

fun times_jsnum :: "jsnum \<Rightarrow> jsnum \<Rightarrow> jsnum" where
  "times_jsnum NaN y = NaN"
| "times_jsnum x NaN = NaN"
| "times_jsnum (Fin a) (Fin b) = Fin (a * b)"
| "times_jsnum (Fin a) PInf = (if a = 0 then NaN else if 0 < a then PInf else NInf)"
| "times_jsnum (Fin a) NInf = (if a = 0 then NaN else if 0 < a then NInf else PInf)"
| "times_jsnum PInf (Fin b) = (if b = 0 then NaN else if 0 < b then PInf else NInf)"
| "times_jsnum NInf (Fin b) = (if b = 0 then NaN else if 0 < b then NInf else PInf)"
| "times_jsnum PInf PInf = PInf"
| "times_jsnum PInf NInf = NInf"
| "times_jsnum NInf PInf = NInf"
| "times_jsnum NInf NInf = PInf"

fun divide_jsnum :: "jsnum \<Rightarrow> jsnum \<Rightarrow> jsnum" where
  "divide_jsnum NaN y = NaN"
| "divide_jsnum x NaN = NaN"
| "divide_jsnum (Fin a) (Fin b) =
     (if b = 0 then (if a = 0 then NaN else if 0 < a then PInf else NInf)
      else Fin (a / b))"
| "divide_jsnum (Fin a) y = Fin 0"
| "divide_jsnum PInf (Fin b) = (if 0 \<le> b then PInf else NInf)"
| "divide_jsnum NInf (Fin b) = (if 0 \<le> b then NInf else PInf)"
| "divide_jsnum x y = NaN"

definition inverse_jsnum :: "jsnum \<Rightarrow> jsnum" where
  "inverse_jsnum x = divide (Fin 1) x"

instance ..

end

text \<open>The relational operators \<open><\<close>, \<open><=\<close>, \<open>>\<close> and \<open>===\<close>: false whenever an operand is NaN.\<close>

fun jlt :: "jsnum \<Rightarrow> jsnum \<Rightarrow> bool" where
  "jlt NaN y = False"
| "jlt x NaN = False"
| "jlt (Fin a) (Fin b) = (a < b)"
| "jlt (Fin a) PInf = True"
| "jlt NInf (Fin b) = True"
| "jlt NInf PInf = True"
| "jlt x y = False"

fun jle :: "jsnum \<Rightarrow> jsnum \<Rightarrow> bool" where
  "jle NaN y = False"
| "jle x NaN = False"
| "jle (Fin a) (Fin b) = (a \<le> b)"
| "jle (Fin a) PInf = True"
| "jle NInf y = True"
| "jle PInf PInf = True"
| "jle x y = False"

definition jgt :: "jsnum \<Rightarrow> jsnum \<Rightarrow> bool" where
  "jgt x y = jlt y x"

definition jeq :: "jsnum \<Rightarrow> jsnum \<Rightarrow> bool" where
  "jeq x y = (x \<noteq> NaN \<and> x = y)"

text \<open>\<open>isFinite\<close>, and the truth value of a number in a condition (0 and NaN are falsy).\<close>

fun isFinite :: "jsnum \<Rightarrow> bool" where
  "isFinite (Fin a) = True"
| "isFinite x = False"

definition truthy :: "jsnum \<Rightarrow> bool" where
  "truthy x = (x \<noteq> Fin 0 \<and> x \<noteq> NaN)"

text \<open>\<open>a || b\<close> on numbers: the first operand when it is truthy, else the second.\<close>

definition jor :: "jsnum \<Rightarrow> jsnum \<Rightarrow> jsnum" where
  "jor x y = (if truthy x then x else y)"

text \<open>The functions of \<open>Math\<close> the engine calls.\<close>

fun Math_abs :: "jsnum \<Rightarrow> jsnum" where
  "Math_abs (Fin a) = Fin \<bar>a\<bar>"
| "Math_abs PInf = PInf"
| "Math_abs NInf = PInf"
| "Math_abs NaN = NaN"

fun Math_sign :: "jsnum \<Rightarrow> jsnum" where
  "Math_sign (Fin a) = Fin (sgn a)"
| "Math_sign PInf = Fin 1"
| "Math_sign NInf = Fin (- 1)"
| "Math_sign NaN = NaN"

fun Math_sqrt :: "jsnum \<Rightarrow> jsnum" where
  "Math_sqrt (Fin a) = (if a < 0 then NaN else Fin (sqrt a))"
| "Math_sqrt PInf = PInf"
| "Math_sqrt x = NaN"

fun Math_log :: "jsnum \<Rightarrow> jsnum" where
  "Math_log (Fin a) = (if a < 0 then NaN else if a = 0 then NInf else Fin (ln a))"
| "Math_log PInf = PInf"
| "Math_log x = NaN"

fun Math_exp :: "jsnum \<Rightarrow> jsnum" where
  "Math_exp (Fin a) = Fin (exp a)"
| "Math_exp PInf = PInf"
| "Math_exp NInf = Fin 0"
| "Math_exp NaN = NaN"

fun Math_max :: "jsnum \<Rightarrow> jsnum \<Rightarrow> jsnum" where
  "Math_max NaN y = NaN"
| "Math_max x NaN = NaN"
| "Math_max x y = (if jlt x y then y else x)"

fun Math_min :: "jsnum \<Rightarrow> jsnum \<Rightarrow> jsnum" where
  "Math_min NaN y = NaN"
| "Math_min x NaN = NaN"
| "Math_min x y = (if jlt y x then y else x)"

text \<open>
  \<open>Math.pow\<close>: 1 for exponent 0 whatever the base, NaN for a negative finite base with a
  fractional exponent, the real power otherwise; the infinite cases as the language
  defines them.
\<close>

definition is_int :: "real \<Rightarrow> bool" where
  "is_int e = (of_int \<lfloor>e\<rfloor> = e)"

definition is_odd_int :: "real \<Rightarrow> bool" where
  "is_odd_int e = (is_int e \<and> odd \<lfloor>e\<rfloor>)"

definition int_power :: "real \<Rightarrow> int \<Rightarrow> real" where
  "int_power x i = (if 0 \<le> i then x ^ nat i else 1 / x ^ nat (- i))"

fun Math_pow :: "jsnum \<Rightarrow> jsnum \<Rightarrow> jsnum" where
  "Math_pow b NaN = NaN"
| "Math_pow b (Fin e) =
     (if e = 0 then Fin 1
      else case b of
        NaN \<Rightarrow> NaN
      | PInf \<Rightarrow> (if 0 < e then PInf else Fin 0)
      | NInf \<Rightarrow> (if 0 < e then (if is_odd_int e then NInf else PInf) else Fin 0)
      | Fin x \<Rightarrow>
          (if x = 0 then (if 0 < e then Fin 0 else PInf)
           else if 0 < x then Fin (x powr e)
           else if is_int e then Fin (int_power x \<lfloor>e\<rfloor>)
           else NaN))"
| "Math_pow b PInf =
     (case Math_abs b of
        NaN \<Rightarrow> NaN
      | Fin a \<Rightarrow> (if 1 < a then PInf else if a = 1 then NaN else Fin 0)
      | _ \<Rightarrow> PInf)"
| "Math_pow b NInf =
     (case Math_abs b of
        NaN \<Rightarrow> NaN
      | Fin a \<Rightarrow> (if 1 < a then Fin 0 else if a = 1 then NaN else PInf)
      | _ \<Rightarrow> Fin 0)"

text \<open>
  Reading an array at an index: past the end the language gives \<open>undefined\<close>, which is
  NaN in every arithmetic use the engine makes of it.
\<close>

definition jnth :: "jsnum list \<Rightarrow> nat \<Rightarrow> jsnum" where
  "jnth xs i = (if i < length xs then xs ! i else NaN)"

text \<open>\<open>xs.reduce((a, b) => a + b, 0)\<close>.\<close>

definition jsum :: "jsnum list \<Rightarrow> jsnum" where
  "jsum xs = foldl (\<lambda>a b. a + b) (Fin 0) xs"

text \<open>The length of an array, and any other count, as a number.\<close>

definition jnum :: "nat \<Rightarrow> jsnum" where
  "jnum n = Fin (real n)"

text \<open>
  \<open>xs.sort(cmp)\<close>: the language fixes a stable sort and leaves the algorithm open; for a
  comparator that is a consistent ordering every stable algorithm returns the same
  array. The model is the stable insertion sort: an element goes in front of the first
  one it compares below (\<open>cmp(x, y) < 0\<close>).
\<close>

fun sort_insert :: "('a \<Rightarrow> 'a \<Rightarrow> jsnum) \<Rightarrow> 'a \<Rightarrow> 'a list \<Rightarrow> 'a list" where
  "sort_insert cmp x [] = [x]"
| "sort_insert cmp x (y # ys) =
     (if jlt (cmp x y) (Fin 0) then x # y # ys else y # sort_insert cmp x ys)"

definition Array_sort :: "('a \<Rightarrow> 'a \<Rightarrow> jsnum) \<Rightarrow> 'a list \<Rightarrow> 'a list" where
  "Array_sort cmp xs = foldl (\<lambda>acc x. sort_insert cmp x acc) [] xs"

section \<open>Descriptive statistics\<close>

text \<open>
  The routines take an array of numbers. (The source also accepts an array of
  \<open>{price}\<close> records and projects it to the prices first; the model starts after that
  projection.)
\<close>

definition calculateSkewness :: "jsnum list \<Rightarrow> jsnum \<Rightarrow> jsnum \<Rightarrow> jsnum" where
  "calculateSkewness data mean stdDev =
     (let n = jnum (length data) in
      if \<not> isFinite stdDev \<or> jeq stdDev (Fin 0) then Fin 0
      else
        let sum = foldl (\<lambda>acc val. acc + Math_pow ((val - mean) / stdDev) (Fin 3)) (Fin 0) data
        in (n / ((n - Fin 1) * (n - Fin 2))) * sum)"

definition calculateKurtosis :: "jsnum list \<Rightarrow> jsnum \<Rightarrow> jsnum \<Rightarrow> jsnum" where
  "calculateKurtosis data mean stdDev =
     (let n = jnum (length data) in
      if \<not> isFinite stdDev \<or> jeq stdDev (Fin 0) then Fin 0
      else
        let sum = foldl (\<lambda>acc val. acc + Math_pow ((val - mean) / stdDev) (Fin 4)) (Fin 0) data
        in ((n * (n + Fin 1)) / ((n - Fin 1) * (n - Fin 2) * (n - Fin 3))) * sum
           - (Fin 3 * Math_pow (n - Fin 1) (Fin 2)) / ((n - Fin 2) * (n - Fin 3)))"

record stats =
  st_n :: nat
  st_mean :: jsnum
  st_median :: jsnum
  st_variance :: jsnum
  st_stdDev :: jsnum
  st_range :: jsnum
  st_cv :: jsnum
  st_skewness :: jsnum
  st_kurtosis :: jsnum
  st_min :: jsnum
  st_max :: jsnum
  st_q1 :: jsnum
  st_q3 :: jsnum

text \<open>\<open>Math.max(...xs)\<close> and \<open>Math.min(...xs)\<close>.\<close>

definition Math_max_all :: "jsnum list \<Rightarrow> jsnum" where
  "Math_max_all xs = foldl Math_max NInf xs"

definition Math_min_all :: "jsnum list \<Rightarrow> jsnum" where
  "Math_min_all xs = foldl Math_min PInf xs"

text \<open>\<open>Math.floor(n * c)\<close> used as an array index, for a count \<open>n\<close> and a constant \<open>c \<ge> 0\<close>.\<close>

definition floor_index :: "nat \<Rightarrow> real \<Rightarrow> nat" where
  "floor_index n c = nat \<lfloor>real n * c\<rfloor>"

definition calculateDescriptiveStats :: "jsnum list \<Rightarrow> stats" where
  "calculateDescriptiveStats data =
     (let prices = filter isFinite data;
          n = length prices
      in
      if n = 0 then
        \<lparr>st_n = 0, st_mean = NaN, st_median = NaN, st_variance = NaN, st_stdDev = NaN,
         st_range = NaN, st_cv = NaN, st_skewness = NaN, st_kurtosis = NaN,
         st_min = NaN, st_max = NaN, st_q1 = NaN, st_q3 = NaN\<rparr>
      else if n = 1 then
        (let only = jnth prices 0 in
         \<lparr>st_n = 1, st_mean = only, st_median = only, st_variance = Fin 0, st_stdDev = Fin 0,
          st_range = Fin 0, st_cv = Fin 0, st_skewness = Fin 0, st_kurtosis = Fin 0,
          st_min = only, st_max = only, st_q1 = only, st_q3 = only\<rparr>)
      else
        (let mean = jsum prices / jnum n;
             sortedPrices = Array_sort (\<lambda>a b. a - b) prices;
             median =
               (if n mod 2 = 0
                then (jnth sortedPrices (n div 2 - 1) + jnth sortedPrices (n div 2)) / Fin 2
                else jnth sortedPrices (floor_index n (1 / 2)));
             variance =
               foldl (\<lambda>sum p. sum + Math_pow (p - mean) (Fin 2)) (Fin 0) prices
               / (jnum n - Fin 1);
             stdDev = Math_sqrt variance;
             range = Math_max_all prices - Math_min_all prices;
             cv = (stdDev / mean) * Fin 100;
             skewness = calculateSkewness prices mean stdDev;
             kurtosis = calculateKurtosis prices mean stdDev
         in
         \<lparr>st_n = n, st_mean = mean, st_median = median, st_variance = variance,
          st_stdDev = stdDev, st_range = range, st_cv = cv, st_skewness = skewness,
          st_kurtosis = kurtosis,
          st_min = Math_min_all prices, st_max = Math_max_all prices,
          st_q1 = jnth sortedPrices (floor_index n 0.25),
          st_q3 = jnth sortedPrices (floor_index n 0.75)\<rparr>))"

datatype outlier_type = inferior | superior

record outlier =
  ol_index :: nat
  ol_price :: jsnum
  ol_type :: outlier_type

definition detectOutliers :: "jsnum list \<Rightarrow> outlier list" where
  "detectOutliers prices =
     (let stats = calculateDescriptiveStats prices;
          iqr = st_q3 stats - st_q1 stats;
          lowerBound = st_q1 stats - Fin 1.5 * iqr;
          upperBound = st_q3 stats + Fin 1.5 * iqr
      in
      foldl (\<lambda>outliers (index, price).
               if jlt price lowerBound \<or> jgt price upperBound
               then outliers @
                 [\<lparr>ol_index = index, ol_price = price,
                   ol_type = (if jlt price lowerBound then inferior else superior)\<rparr>]
               else outliers)
        [] (zip [0..<length prices] prices))"

section \<open>Autocorrelation\<close>

definition calculateACF :: "jsnum list \<Rightarrow> nat \<Rightarrow> jsnum list" where
  "calculateACF prices maxLags =
     (let n = length prices;
          mean = jsum prices / jnum n
      in
      map (\<lambda>lag.
             let numerator =
                   foldl (\<lambda>acc i. acc + (jnth prices i - mean) * (jnth prices (i + lag) - mean))
                     (Fin 0) [0..<n - lag];
                 denominator =
                   foldl (\<lambda>acc i. acc + Math_pow (jnth prices i - mean) (Fin 2)) (Fin 0) [0..<n]
             in if lag = 0 then Fin 1 else numerator / denominator)
        [0..<Suc maxLags])"

text \<open>One turn of the loop of \<open>calculatePACF\<close>: the value pushed for lag \<open>k\<close>.\<close>

definition pacf_step :: "jsnum list \<Rightarrow> jsnum list \<Rightarrow> nat \<Rightarrow> jsnum" where
  "pacf_step acf pacf k =
     (if k = 1 then jnth acf 1
      else
        let numerator =
              foldl (\<lambda>numerator j. numerator - jnth pacf j * jnth acf (k - j))
                (jnth acf k) [1..<k];
            denominator = Fin 1
        in numerator / denominator)"

text \<open>The loop itself: the array \<open>pacf\<close>, started as \<open>[1]\<close>, after the turns for lags 1 to \<open>n\<close>.\<close>

definition pacf_loop :: "jsnum list \<Rightarrow> nat \<Rightarrow> jsnum list" where
  "pacf_loop acf n = foldl (\<lambda>pacf k. pacf @ [pacf_step acf pacf k]) [Fin 1] [1..<Suc n]"

definition calculatePACF :: "jsnum list \<Rightarrow> nat \<Rightarrow> jsnum list" where
  "calculatePACF data maxLags =
     (let acf = calculateACF data maxLags in pacf_loop acf maxLags)"

definition computeAutocorrelations :: "jsnum list \<Rightarrow> nat \<Rightarrow> jsnum list" where
  "computeAutocorrelations values m =
     (let n = length values in
      if n < m + 1 then replicate m NaN
      else
        let mean = jsum values / jnum n;
            denom = foldl (\<lambda>denom i. let v = jnth values i - mean in denom + v * v)
                      (Fin 0) [0..<n]
        in map (\<lambda>k.
                  let num = foldl (\<lambda>num t. num + (jnth values t - mean) * (jnth values (t - k) - mean))
                              (Fin 0) [k..<n]
                  in if truthy denom then num / denom else Fin 0)
             [1..<Suc m])"

section \<open>Stationarity and diagnostic tests\<close>

text \<open>The first differences \<open>prices[i] - prices[i-1]\<close>, for \<open>i\<close> from 1.\<close>

definition differences :: "jsnum list \<Rightarrow> jsnum list" where
  "differences prices = map (\<lambda>i. jnth prices i - jnth prices (i - 1)) [1..<length prices]"

record adf_result =
  adf_statistic :: jsnum
  adf_isStationary :: bool
  adf_pValue :: jsnum

definition criticalValues_5 :: jsnum where
  "criticalValues_5 = Fin (- 2.86)"

definition adfTest :: "jsnum list \<Rightarrow> adf_result" where
  "adfTest prices =
     (let diffs = differences prices;
          meanDiff = jsum diffs / jnum (length diffs);
          variance =
            foldl (\<lambda>sum d. sum + Math_pow (d - meanDiff) (Fin 2)) (Fin 0) diffs
            / (jnum (length diffs) - Fin 1);
          adfStat = meanDiff / Math_sqrt (variance / jnum (length diffs));
          isStationary = jlt adfStat criticalValues_5
      in \<lparr>adf_statistic = adfStat, adf_isStationary = isStationary,
          adf_pValue = (if isStationary then Fin 0.03 else Fin 0.15)\<rparr>)"

definition normalCdf :: "jsnum \<Rightarrow> jsnum" where
  "normalCdf z =
     (let t = Fin 1 / (Fin 1 + Fin 0.2316419 * Math_abs z);
          d = Fin 0.3989423 * Math_exp ((- z) * z / Fin 2);
          prob = d * t * (Fin 0.3193815 + t * (Fin (- 0.3565638) + t * (Fin 1.781478
                   + t * (Fin (- 1.821256) + t * Fin 1.330274))));
          prob = (if jgt z (Fin 0) then Fin 1 - prob else prob)
      in if jle (Fin 0) z then Fin 1 - prob else prob)"

definition chiSquareUpperTailP :: "jsnum \<Rightarrow> jsnum \<Rightarrow> jsnum" where
  "chiSquareUpperTailP Q df =
     (if jle df (Fin 0) then Fin 1
      else
        let a = Fin 1 - Fin 2 / (Fin 9 * df);
            z = (Math_pow (Q / df) (Fin 1 / Fin 3) - a) / Math_sqrt (Fin 2 / (Fin 9 * df));
            pUpper = Fin 1 - normalCdf z
        in Math_min (Math_max pUpper (Fin 0)) (Fin 1))"

record jb_result =
  jb_jb :: jsnum
  jb_pValue :: jsnum

definition computeJarqueBera :: "jsnum list \<Rightarrow> jb_result" where
  "computeJarqueBera values =
     (let n = length values in
      if n < 8 then \<lparr>jb_jb = NaN, jb_pValue = NaN\<rparr>
      else
        let mean = jsum values / jnum n;
            (m2, m3, m4) =
              foldl (\<lambda>(m2, m3, m4) i.
                       let x = jnth values i - mean
                       in (m2 + x * x, m3 + x * x * x, m4 + x * x * x * x))
                (Fin 0, Fin 0, Fin 0) [0..<n];
            m2 = m2 / jnum n;
            m3 = m3 / jnum n;
            m4 = m4 / jnum n;
            skew = m3 / Math_pow m2 (Fin 1.5);
            kurt = m4 / (m2 * m2);
            jb = (jnum n / Fin 6) * (skew * skew + Math_pow (kurt - Fin 3) (Fin 2) / Fin 4);
            pValue = Math_exp ((- jb) / Fin 2)
        in \<lparr>jb_jb = jb, jb_pValue = pValue\<rparr>)"

record lb_result =
  lb_Q :: jsnum
  lb_pValue :: jsnum

definition ljungBoxTest :: "jsnum list \<Rightarrow> nat \<Rightarrow> nat \<Rightarrow> lb_result" where
  "ljungBoxTest residuals m p =
     (let n = length residuals in
      if n < m + 1 then \<lparr>lb_Q = NaN, lb_pValue = NaN\<rparr>
      else
        let ac = computeAutocorrelations residuals m;
            Q = foldl (\<lambda>Q k. let rk = jnth ac (k - 1) in Q + rk * rk / (jnum n - jnum k))
                  (Fin 0) [1..<Suc m];
            Q = Q * (jnum n * (jnum n + Fin 2));
            df = Math_max (Fin 1) (jnum m - jnum p);
            pValue = chiSquareUpperTailP Q df
        in \<lparr>lb_Q = Q, lb_pValue = pValue\<rparr>)"

record arch_result =
  arch_LM :: jsnum
  arch_pValue :: jsnum
  arch_R2 :: jsnum

definition archLMTest :: "jsnum list \<Rightarrow> nat \<Rightarrow> arch_result" where
  "archLMTest residuals m =
     (let n = length residuals in
      if n < m + 2 then \<lparr>arch_LM = NaN, arch_pValue = NaN, arch_R2 = NaN\<rparr>
      else
        let y = map (\<lambda>r. r * r) residuals;
            Y = drop 1 y;
            X = take (length y - 1) y;
            meanX = jsum X / jnum (length X);
            meanY = jsum Y / jnum (length Y);
            (cov, varX) =
              foldl (\<lambda>(cov, varX) i.
                       let dx = jnth X i - meanX;
                           dy = jnth Y i - meanY
                       in (cov + dx * dy, varX + dx * dx))
                (Fin 0, Fin 0) [0..<length X];
            beta = (if truthy varX then cov / varX else Fin 0);
            alpha = meanY - beta * meanX;
            (ssr, tss) =
              foldl (\<lambda>(ssr, tss) i.
                       let yhat = alpha + beta * jnth X i;
                           err = jnth Y i - yhat
                       in (ssr + err * err, tss + (jnth Y i - meanY) * (jnth Y i - meanY)))
                (Fin 0, Fin 0) [0..<length X];
            R2 = (if truthy tss then Fin 1 - ssr / tss else Fin 0);
            LM = jnum (length X) * Math_max (Fin 0) R2;
            pValue = chiSquareUpperTailP LM (jnum m)
        in \<lparr>arch_LM = LM, arch_pValue = pValue, arch_R2 = R2\<rparr>)"

section \<open>Model fitting on first differences\<close>

text \<open>
  The Gaussian log-likelihood and the two information criteria, as each fitter computes
  them from the residual count \<open>nEff\<close>, the residual variance and the parameter count.
\<close>

definition logL_of :: "nat \<Rightarrow> jsnum \<Rightarrow> jsnum" where
  "logL_of nEff sigma2 =
     Fin (- 0.5) * jnum nEff * (Math_log (Fin 2 * Fin pi) + Math_log sigma2 + Fin 1)"

definition AIC_of :: "jsnum \<Rightarrow> nat \<Rightarrow> jsnum" where
  "AIC_of logL k = Fin (- 2) * logL + Fin 2 * jnum k"

definition BIC_of :: "jsnum \<Rightarrow> nat \<Rightarrow> nat \<Rightarrow> jsnum" where
  "BIC_of logL k nEff = Fin (- 2) * logL + jnum k * Math_log (Math_max (Fin 1) (jnum nEff))"

text \<open>\<open>residuals.reduce((s, e) => s + e * e, 0) / Math.max(1, nEff)\<close>.\<close>

definition sigma2_of :: "jsnum list \<Rightarrow> jsnum" where
  "sigma2_of residuals =
     foldl (\<lambda>s e. s + e * e) (Fin 0) residuals / Math_max (Fin 1) (jnum (length residuals))"

record ar1_fit =
  ar1_phi :: jsnum
  ar1_residuals :: "jsnum list"
  ar1_sigma2 :: jsnum
  ar1_se :: jsnum
  ar1_t :: jsnum
  ar1_pValue :: jsnum
  ar1_AIC :: jsnum
  ar1_BIC :: jsnum

definition fitAR1OnDiff :: "jsnum list \<Rightarrow> ar1_fit" where
  "fitAR1OnDiff prices =
     (if length prices < 3 then
        \<lparr>ar1_phi = NaN, ar1_residuals = [], ar1_sigma2 = NaN, ar1_se = NaN, ar1_t = NaN,
         ar1_pValue = NaN, ar1_AIC = NaN, ar1_BIC = NaN\<rparr>
      else
        let returns = differences prices;
            n = length returns;
            y = drop 1 returns;
            x = take (n - 1) returns;
            (num, den) =
              foldl (\<lambda>(num, den) i. (num + jnth y i * jnth x i, den + jnth x i * jnth x i))
                (Fin 0, Fin 0) [0..<length x];
            phi = (if truthy den then num / den else Fin 0);
            residuals = map (\<lambda>i. jnth y i - phi * jnth x i) [0..<length y];
            nEff = length residuals;
            sigma2 = sigma2_of residuals;
            se = Math_sqrt (sigma2 / Math_max den (Fin (1 / 10 ^ 12)));
            t = (if truthy se then phi / se else NaN);
            pValue = Fin 2 * (Fin 1 - normalCdf (Math_abs t));
            logL = logL_of nEff sigma2;
            k = 2;
            AIC = AIC_of logL k;
            BIC = BIC_of logL k nEff
        in \<lparr>ar1_phi = phi, ar1_residuals = residuals, ar1_sigma2 = sigma2, ar1_se = se,
            ar1_t = t, ar1_pValue = pValue, ar1_AIC = AIC, ar1_BIC = BIC\<rparr>)"

definition estimateThetaFromACF1 :: "jsnum \<Rightarrow> jsnum" where
  "estimateThetaFromACF1 rho1 =
     (let r = Math_max (Fin (- 0.49)) (Math_min (Fin 0.49) rho1) in
      if jlt (Math_abs r) (Fin (1 / 10 ^ 6)) then Fin 0
      else
        let disc = Fin 1 - Fin 4 * r * r in
        if jlt disc (Fin 0) then Fin 0
        else
          let t1 = (Fin 1 - Math_sqrt disc) / (Fin 2 * r);
              t2 = (Fin 1 + Math_sqrt disc) / (Fin 2 * r);
              theta = (if jle (Math_abs t1) (Fin 1) then t1 else t2);
              theta = (if jgt (Math_abs theta) (Fin 0.99) then Math_sign theta * Fin 0.99 else theta)
          in theta)"

record ma1_fit =
  ma1_theta :: jsnum
  ma1_residuals :: "jsnum list"
  ma1_sigma2 :: jsnum
  ma1_logL :: jsnum
  ma1_AIC :: jsnum
  ma1_BIC :: jsnum

text \<open>The differences minus their mean, as the MA(1) and ARMA(1,1) fitters form them.\<close>

definition demeaned :: "jsnum list \<Rightarrow> jsnum list" where
  "demeaned returns =
     (let n = length returns;
          mean = jsum returns / jnum n
      in map (\<lambda>v. v - mean) returns)"

text \<open>The lag-1 autocorrelation the MA(1) fitter passes on: 0 when it is not finite.\<close>

definition ma1_rho1 :: "jsnum list \<Rightarrow> jsnum" where
  "ma1_rho1 x =
     (let acf = calculateACF x 2 in
      if 1 < length acf \<and> isFinite (jnth acf 1) then jnth acf 1 else Fin 0)"

definition fitMA1OnDiff :: "jsnum list \<Rightarrow> ma1_fit" where
  "fitMA1OnDiff prices =
     (if length prices < 3 then
        \<lparr>ma1_theta = NaN, ma1_residuals = [], ma1_sigma2 = NaN, ma1_logL = NaN,
         ma1_AIC = NaN, ma1_BIC = NaN\<rparr>
      else
        let returns = differences prices;
            x = demeaned returns;
            rho1 = ma1_rho1 x;
            theta = estimateThetaFromACF1 rho1;
            (epsPrev, residuals) =
              foldl (\<lambda>(epsPrev, residuals) t.
                       let eps = jnth x t - theta * epsPrev
                       in (eps, residuals @ [eps]))
                (Fin 0, []) [0..<length x];
            nEff = length residuals;
            sigma2 = sigma2_of residuals;
            logL = logL_of nEff sigma2;
            k = 2;
            AIC = AIC_of logL k;
            BIC = BIC_of logL k nEff
        in \<lparr>ma1_theta = theta, ma1_residuals = residuals, ma1_sigma2 = sigma2,
            ma1_logL = logL, ma1_AIC = AIC, ma1_BIC = BIC\<rparr>)"

text \<open>
  The grid of the ARMA(1,1) search: \<open>for (v = -0.9; v <= 0.9; v += 0.1)\<close>. In exact
  arithmetic these are the 19 values \<open>-0.9, -0.8, ..., 0.9\<close>.
\<close>

function grid_from :: "real \<Rightarrow> real list" where
  "grid_from v = (if v \<le> 0.9 then v # grid_from (v + 0.1) else [])"
  by pat_completeness auto
termination
proof (relation "measure (\<lambda>v. nat \<lceil>(1 - v) * 10\<rceil>)")
  show "wf (measure (\<lambda>v::real. nat \<lceil>(1 - v) * 10\<rceil>))"
    by simp
next
  fix v :: real
  assume "v \<le> 0.9"
  then have "1 \<le> \<lceil>(1 - v) * 10\<rceil>"
    by (simp add: le_ceiling_iff)
  moreover have "(1 - (v + 0.1)) * 10 = (1 - v) * 10 - 1"
    by simp
  then have "\<lceil>(1 - (v + 0.1)) * 10\<rceil> = \<lceil>(1 - v) * 10\<rceil> - 1"
    by (simp only: ceiling_diff_one)
  ultimately show "(v + 0.1, v) \<in> measure (\<lambda>v. nat \<lceil>(1 - v) * 10\<rceil>)"
    by simp
qed

text \<open>The mean squared residual of one grid point \<open>(phi, theta)\<close>.\<close>

definition arma_grid_sigma2 :: "jsnum \<Rightarrow> jsnum \<Rightarrow> jsnum list \<Rightarrow> jsnum" where
  "arma_grid_sigma2 phi theta x =
     (let (epsPrev, sse, count) =
            foldl (\<lambda>(epsPrev, sse, count) t.
                     let eps = jnth x t - phi * jnth x (t - 1) - theta * epsPrev
                     in (eps, sse + eps * eps, count + 1))
              (Fin 0, Fin 0, 0 :: nat) [1..<length x]
      in sse / Math_max (Fin 1) (jnum count))"

text \<open>The two nested loops over the grid, keeping the first point of least \<open>sigma2\<close>.\<close>

definition arma_grid_search :: "jsnum list \<Rightarrow> jsnum \<times> jsnum \<times> jsnum" where
  "arma_grid_search x =
     foldl (\<lambda>(bestPhi, bestTheta, bestSigma2) (phi, theta).
              let sigma2 = arma_grid_sigma2 (Fin phi) (Fin theta) x
              in if jlt sigma2 bestSigma2 then (Fin phi, Fin theta, sigma2)
                 else (bestPhi, bestTheta, bestSigma2))
       (Fin 0, Fin 0, PInf)
       (List.product (grid_from (- 0.9)) (grid_from (- 0.9)))"

record arma11_fit =
  arma_phi :: jsnum
  arma_theta :: jsnum
  arma_residuals :: "jsnum list"
  arma_sigma2 :: jsnum
  arma_logL :: jsnum
  arma_AIC :: jsnum
  arma_BIC :: jsnum

definition fitARMA11OnDiff :: "jsnum list \<Rightarrow> arma11_fit" where
  "fitARMA11OnDiff prices =
     (if length prices < 4 then
        \<lparr>arma_phi = NaN, arma_theta = NaN, arma_residuals = [], arma_sigma2 = NaN,
         arma_logL = NaN, arma_AIC = NaN, arma_BIC = NaN\<rparr>
      else
        let returns = differences prices;
            x = demeaned returns;
            (bestPhi, bestTheta, bestSigma2) = arma_grid_search x;
            (epsPrev, residuals) =
              foldl (\<lambda>(epsPrev, residuals) t.
                       let eps = jnth x t - bestPhi * jnth x (t - 1) - bestTheta * epsPrev
                       in (eps, residuals @ [eps]))
                (Fin 0, []) [1..<length x];
            nEff = length residuals;
            sigma2 = sigma2_of residuals;
            logL = logL_of nEff sigma2;
            k = 3;
            AIC = AIC_of logL k;
            BIC = BIC_of logL k nEff
        in \<lparr>arma_phi = bestPhi, arma_theta = bestTheta, arma_residuals = residuals,
            arma_sigma2 = sigma2, arma_logL = logL, arma_AIC = AIC, arma_BIC = BIC\<rparr>)"

section \<open>Model selection\<close>

text \<open>
  A row of the ranking. The source's row also carries a text of the fitted parameters,
  formatted for the table; it takes no part in the ranking and is left out.
\<close>

record model =
  m_name :: string
  m_AIC :: jsnum
  m_BIC :: jsnum
  m_logL :: jsnum
  m_k :: nat

record ranked_model = model +
  m_rank :: nat

definition candidate_models :: "ar1_fit \<Rightarrow> ma1_fit \<Rightarrow> arma11_fit \<Rightarrow> model list" where
  "candidate_models ar1 ma1 arma11 =
     (let logL_ar1 = logL_of (length (ar1_residuals ar1)) (ar1_sigma2 ar1) in
      [\<lparr>m_name = ''ARIMA(1,1,0)'', m_AIC = ar1_AIC ar1, m_BIC = ar1_BIC ar1,
        m_logL = logL_ar1, m_k = 2\<rparr>,
       \<lparr>m_name = ''ARIMA(0,1,1)'', m_AIC = ma1_AIC ma1, m_BIC = ma1_BIC ma1,
        m_logL = ma1_logL ma1, m_k = 2\<rparr>,
       \<lparr>m_name = ''ARIMA(1,1,1)'', m_AIC = arma_AIC arma11, m_BIC = arma_BIC arma11,
        m_logL = arma_logL arma11, m_k = 3\<rparr>])"

text \<open>The comparator \<open>(a, b) => (a.AIC - b.AIC) || (a.BIC - b.BIC)\<close>.\<close>

definition model_cmp :: "model \<Rightarrow> model \<Rightarrow> jsnum" where
  "model_cmp a b = jor (m_AIC a - m_AIC b) (m_BIC a - m_BIC b)"

text \<open>Filter, sort and number the candidates.\<close>

definition rank_models :: "model list \<Rightarrow> ranked_model list" where
  "rank_models candidates =
     (let models = filter (\<lambda>m. isFinite (m_AIC m) \<and> isFinite (m_BIC m)) candidates;
          models = Array_sort model_cmp models
      in map (\<lambda>(i, m). model.extend m \<lparr>m_rank = i + 1\<rparr>) (zip [0..<length models] models))"

text \<open>
  The routine itself. It reads the price series and looks up the element of the page
  that shows the ranking; \<open>container\<close> says whether that element exists. Without the
  element, or on fewer than ten prices, it returns at once and ranks nothing: the result
  is \<open>None\<close>. Otherwise it fits the three models and ranks them.
\<close>

definition generateModelSelectionForStage2 :: "bool \<Rightarrow> jsnum list \<Rightarrow> ranked_model list option" where
  "generateModelSelectionForStage2 container prices =
     (if \<not> container \<or> length prices < 10 then None
      else
        let ar1 = fitAR1OnDiff prices;
            ma1 = fitMA1OnDiff prices;
            arma11 = fitARMA11OnDiff prices
        in Some (rank_models (candidate_models ar1 ma1 arma11)))"

section \<open>Forecasting\<close>

definition forecastHorizon :: nat where
  "forecastHorizon = 12"

record forecasts =
  diffForecasts :: "jsnum list"
  pointForecasts :: "jsnum list"
  seForecasts :: "jsnum list"

text \<open>
  The forecast loops of \<open>generateRealForecastsForStage5\<close>, from the fitted coefficient,
  the residual variance, the last price and the last difference. The three arrays are
  created with \<open>forecastHorizon\<close> empty slots and every slot is written.
\<close>

definition forecast_diffs :: "jsnum \<Rightarrow> jsnum \<Rightarrow> jsnum list" where
  "forecast_diffs phi lastDiff =
     foldl (\<lambda>df h. df[h - 1 := (if isFinite phi then phi * jnth df (h - 2) else NaN)])
       ((replicate forecastHorizon NaN)[0 := (if isFinite phi then phi * lastDiff else NaN)])
       [2..<Suc forecastHorizon]"

definition forecast_level :: "jsnum list \<Rightarrow> jsnum \<Rightarrow> nat \<Rightarrow> jsnum" where
  "forecast_level df lastPrice h =
     (let sumDiff = foldl (\<lambda>a b. a + (if isFinite b then b else Fin 0)) (Fin 0) (take h df)
      in if isFinite lastPrice then lastPrice + sumDiff else NaN)"

definition forecast_se :: "jsnum \<Rightarrow> jsnum \<Rightarrow> nat \<Rightarrow> jsnum" where
  "forecast_se phi sigma2 h =
     (let varSum =
            (if isFinite sigma2 \<and> isFinite phi
             then foldl (\<lambda>varSum m.
                           let weight = (Fin 1 - Math_pow phi (jnum h - jnum m + Fin 1))
                                        / (Fin 1 - phi)
                           in varSum + weight * weight)
                    (Fin 0) [1..<Suc h]
             else NaN)
      in if isFinite varSum then Math_sqrt (sigma2 * varSum) else NaN)"

definition forecast_steps :: "jsnum \<Rightarrow> jsnum \<Rightarrow> jsnum \<Rightarrow> jsnum \<Rightarrow> forecasts" where
  "forecast_steps phi sigma2 lastPrice lastDiff =
     (let df = forecast_diffs phi lastDiff in
      \<lparr>diffForecasts = df,
       pointForecasts = map (\<lambda>h. forecast_level df lastPrice h) [1..<Suc forecastHorizon],
       seForecasts = map (\<lambda>h. forecast_se phi sigma2 h) [1..<Suc forecastHorizon]\<rparr>)"

definition generateRealForecastsForStage5 :: "jsnum list \<Rightarrow> forecasts" where
  "generateRealForecastsForStage5 prices =
     (let est = fitAR1OnDiff prices;
          phi = ar1_phi est;
          residuals = ar1_residuals est;
          nRes = length residuals;
          sigma2 = (if 0 < nRes
                    then foldl (\<lambda>acc v. acc + v * v) (Fin 0) residuals / jnum nRes
                    else NaN);
          lastPrice = jnth prices (length prices - 1);
          lastDiff = (if 1 < length prices
                      then jnth prices (length prices - 1) - jnth prices (length prices - 2)
                      else Fin 0)
      in forecast_steps phi sigma2 lastPrice lastDiff)"

section \<open>The specification's forecast recursion\<close>

text \<open>
  The difference forecasts as the specification words them: the forecast at horizon
  \<open>h + 1\<close> is \<open>phi\<close> times the forecast at horizon \<open>h\<close>, starting from the last observed
  difference (horizon 0); the level forecast at horizon \<open>h\<close> is the last price plus the
  difference forecasts of horizons 1 to \<open>h\<close>.
\<close>

fun spec_diff :: "real \<Rightarrow> real \<Rightarrow> nat \<Rightarrow> real" where
  "spec_diff phi dLast 0 = dLast"
| "spec_diff phi dLast (Suc h) = phi * spec_diff phi dLast h"

definition spec_level :: "real \<Rightarrow> real \<Rightarrow> real \<Rightarrow> nat \<Rightarrow> real" where
  "spec_level phi dLast yLast h = yLast + (\<Sum>s = 1..h. spec_diff phi dLast s)"

section \<open>Predicates of the properties\<close>

text \<open>A p-value: NaN, or a number between 0 and 1.\<close>

definition pvalue_ok :: "jsnum \<Rightarrow> bool" where
  "pvalue_ok p = (p = NaN \<or> (jle (Fin 0) p \<and> jle p (Fin 1)))"

text \<open>NaN, a finite number that is not negative, or \<open>Infinity\<close>.\<close>

definition nonneg_or_NaN :: "jsnum \<Rightarrow> bool" where
  "nonneg_or_NaN x = (x = NaN \<or> jle (Fin 0) x)"

section \<open>The fits in closed form, on finite prices\<close>

text \<open>
  The formulas of the specification on real numbers, for a series whose prices are all
  finite: the differences, the AR(1) coefficient \<open>sum y*x / sum x*x\<close> of the regression
  of each difference on the one before it (0 when the denominator is 0), its residuals,
  the mean squared residual and the standard error.
\<close>

definition spec_differences :: "real list \<Rightarrow> real list" where
  "spec_differences ps = map (\<lambda>i. ps ! i - ps ! (i - 1)) [1..<length ps]"

definition spec_ar1_phi :: "real list \<Rightarrow> real" where
  "spec_ar1_phi d =
     (let num = (\<Sum>i < length d - 1. d ! (i + 1) * d ! i);
          den = (\<Sum>i < length d - 1. d ! i * d ! i)
      in if den = 0 then 0 else num / den)"

definition spec_ar1_residuals :: "real list \<Rightarrow> real list" where
  "spec_ar1_residuals d = map (\<lambda>i. d ! (i + 1) - spec_ar1_phi d * d ! i) [0..<length d - 1]"

definition spec_sigma2 :: "real list \<Rightarrow> real" where
  "spec_sigma2 es = (\<Sum>e\<leftarrow>es. e * e) / real (length es)"

definition spec_ar1_se :: "real list \<Rightarrow> real" where
  "spec_ar1_se d =
     sqrt (spec_sigma2 (spec_ar1_residuals d) / max (\<Sum>i < length d - 1. d ! i * d ! i) (1 / 10 ^ 12))"

definition spec_demeaned :: "real list \<Rightarrow> real list" where
  "spec_demeaned ds = map (\<lambda>v. v - sum_list ds / real (length ds)) ds"

text \<open>
  The relation between the two information criteria, as the language compares numbers:
  \<open>BIC === AIC + k * (Math.log(nEff) - 2)\<close>.
\<close>

definition ic_relation :: "jsnum \<Rightarrow> jsnum \<Rightarrow> nat \<Rightarrow> nat \<Rightarrow> bool" where
  "ic_relation AIC BIC k nEff = jeq BIC (AIC + jnum k * (Math_log (jnum nEff) - Fin 2))"

text \<open>
  The lag-1 autocorrelation clamped to \<open>[-0.49, 0.49]\<close>, and the root of
  \<open>r * theta^2 - theta + r = 0\<close> that \<open>estimateThetaFromACF1\<close> returns for it.
\<close>

definition clamp_rho1 :: "real \<Rightarrow> real" where
  "clamp_rho1 rho1 = max (- 0.49) (min 0.49 rho1)"

definition spec_theta :: "real \<Rightarrow> real" where
  "spec_theta r = (if \<bar>r\<bar> < 1 / 10 ^ 6 then 0 else (1 - sqrt (1 - 4 * r * r)) / (2 * r))"

section \<open>The autocorrelations in closed form, on finite values\<close>

text \<open>
  The lag-\<open>k\<close> autocorrelation of the specification, with the full-sample mean and the
  full-sample denominator: \<open>sum (x_i - mean) * (x_(i+k) - mean) / sum (x_i - mean)^2\<close>,
  and 1 at lag 0. The denominator is the centered sum of squares.
\<close>

definition centered_sum_of_squares :: "real list \<Rightarrow> real" where
  "centered_sum_of_squares xs =
     (\<Sum>i < length xs. (xs ! i - sum_list xs / real (length xs))\<^sup>2)"

definition spec_acf :: "real list \<Rightarrow> nat \<Rightarrow> real" where
  "spec_acf xs k =
     (let n = length xs;
          mean = sum_list xs / real n
      in if k = 0 then 1
         else (\<Sum>i < n - k. (xs ! i - mean) * (xs ! (i + k) - mean))
              / (\<Sum>i < n. (xs ! i - mean)\<^sup>2))"

text \<open>
  The simplified recursion of the specification from autocorrelations \<open>a\<close>: 1 at lag 0,
  \<open>a 1\<close> at lag 1, and \<open>a k\<close> minus the sum of \<open>PACF(j) * a (k - j)\<close> over \<open>j\<close> from 1 to
  \<open>k - 1\<close> from lag 2 on, with no division.
\<close>

fun spec_pacf :: "(nat \<Rightarrow> real) \<Rightarrow> nat \<Rightarrow> real" where
  "spec_pacf a k =
     (if k = 0 then 1
      else if k = 1 then a 1
      else a k - (\<Sum>j = 1..<k. spec_pacf a j * a (k - j)))"

section \<open>Outliers and ranking as the specification words them\<close>

text \<open>
  The outliers of a finite sequence by the 1.5 IQR rule: \<open>Q1\<close> and \<open>Q3\<close> are the sorted
  values at the indices \<open>floor(n * 0.25)\<close> and \<open>floor(n * 0.75)\<close>, that is \<open>n div 4\<close> and
  \<open>3 * n div 4\<close>; a value below \<open>Q1 - 1.5 * IQR\<close> or above \<open>Q3 + 1.5 * IQR\<close> is listed
  with its index, in the order of the input, tagged \<open>inferior\<close> or \<open>superior\<close>.
\<close>

definition spec_outliers :: "real list \<Rightarrow> outlier list" where
  "spec_outliers rs =
     (let n = length rs;
          sorted_values = sort rs;
          q1 = sorted_values ! (n div 4);
          q3 = sorted_values ! (3 * n div 4);
          iqr = q3 - q1;
          lower = q1 - 1.5 * iqr;
          upper = q3 + 1.5 * iqr
      in map (\<lambda>i. \<lparr>ol_index = i, ol_price = Fin (rs ! i),
                     ol_type = (if rs ! i < lower then inferior else superior)\<rparr>)
           (filter (\<lambda>i. rs ! i < lower \<or> upper < rs ! i) [0..<n]))"

text \<open>
  A candidate with finite criteria, and the order of the ranking: ascending AIC, and
  ascending BIC among equal AIC.
\<close>

definition finite_criteria :: "'a model_scheme \<Rightarrow> bool" where
  "finite_criteria m = (isFinite (m_AIC m) \<and> isFinite (m_BIC m))"

definition ranks_before :: "'a model_scheme \<Rightarrow> 'b model_scheme \<Rightarrow> bool" where
  "ranks_before a b =
     (jlt (m_AIC a) (m_AIC b) \<or> (jeq (m_AIC a) (m_AIC b) \<and> jle (m_BIC a) (m_BIC b)))"

section \<open>Facts about the number model\<close>

lemma minus_Fin [simp]: "Fin a - Fin b = Fin (a - b)"
  by (simp add: minus_jsnum_def)

lemma jnum_simps [simp]: "jnum n = Fin (real n)"
  by (simp add: jnum_def)

lemma jnth_map_Fin [simp]: "i < length rs \<Longrightarrow> jnth (map Fin rs) i = Fin (rs ! i)"
  by (simp add: jnth_def)

lemma isFinite_iff: "isFinite x \<longleftrightarrow> (\<exists>a. x = Fin a)"
  by (cases x) simp_all

lemma NaN_right [simp]: "x + NaN = NaN" "x - NaN = NaN" "x * NaN = NaN" "x / NaN = NaN"
  by (cases x; simp add: minus_jsnum_def)+

lemma NaN_left [simp]: "NaN - x = NaN"
  by (simp add: minus_jsnum_def)

lemma jcompare_NaN [simp]: "\<not> jlt x NaN" "\<not> jle x NaN" "\<not> jgt NaN x" "\<not> jgt x NaN"
  by (cases x; simp add: jgt_def)+

declare Math_pow.simps [simp del]

section \<open>Forecasts (C1)\<close>

lemma upt12:
  "[2..<Suc 12] = [2, 3, 4, 5, 6, 7, 8, 9, 10, 11, 12]"
  "[1..<Suc 12] = [1, 2, 3, 4, 5, 6, 7, 8, 9, 10, 11, 12]"
  by (simp_all add: upt_rec)

lemma forecast_diffs_Fin:
  "forecast_diffs (Fin phi) (Fin dLast) = map (\<lambda>h. Fin (spec_diff phi dLast h)) [1..<13]"
  unfolding forecast_diffs_def forecastHorizon_def upt12
  by (simp add: eval_nat_numeral jnth_def upt_rec)

lemma foldl_finite_sum:
  "foldl (\<lambda>a b. a + (if isFinite b then b else Fin 0)) (Fin a) (map (\<lambda>i. Fin (f i)) js)
     = Fin (a + sum_list (map f js))"
  by (induction js arbitrary: a) (simp_all add: add.assoc)

lemma forecast_level_Fin:
  assumes "h \<le> 12"
  shows "forecast_level (map (\<lambda>h. Fin (d h)) [1..<13]) (Fin yLast) h = Fin (yLast + (\<Sum>s = 1..h. d s))"
proof -
  have "take h (map (\<lambda>h. Fin (d h)) [1..<13]) = map (\<lambda>h. Fin (d h)) [1..<Suc h]"
    using assms by (simp add: take_map take_upt del: upt_Suc)
  moreover have "sum_list (map d [1..<Suc h]) = (\<Sum>s = 1..h. d s)"
    by (simp add: interv_sum_list_conv_sum_set_nat atLeastLessThanSuc_atLeastAtMost del: upt_Suc)
  ultimately show ?thesis
    unfolding forecast_level_def Let_def by (simp add: foldl_finite_sum del: One_nat_def upt_Suc)
qed

lemma point_Fin: "pointForecasts (forecast_steps (Fin phi) sigma2 (Fin yLast) (Fin dLast)) = map (\<lambda>h. Fin (spec_level phi dLast yLast h)) [1..<13]"
proof -
  have "forecast_level (map (\<lambda>h. Fin (spec_diff phi dLast h)) [1..<13]) (Fin yLast) h
          = Fin (spec_level phi dLast yLast h)" if "h \<in> set [1..<13]" for h
    using that by (simp add: forecast_level_Fin spec_level_def del: One_nat_def upt_Suc)
  then show ?thesis
    unfolding forecast_steps_def Let_def forecast_diffs_Fin forecastHorizon_def
    by (simp del: upt_Suc One_nat_def)
qed

lemma ar1_phi_example: "ar1_phi (fitAR1OnDiff [Fin 94, Fin 98, Fin 100]) = Fin 0.5"
  by (simp add: fitAR1OnDiff_def differences_def jnth_def truthy_def upt_rec Let_def)

lemma stage5_example:
  "generateRealForecastsForStage5 [Fin 94, Fin 98, Fin 100]
     = forecast_steps (Fin 0.5)
         (foldl (\<lambda>acc v. acc + v * v) (Fin 0) (ar1_residuals (fitAR1OnDiff [Fin 94, Fin 98, Fin 100]))
            / jnum (length (ar1_residuals (fitAR1OnDiff [Fin 94, Fin 98, Fin 100]))))
         (Fin 100) (Fin 2)"
proof -
  have "ar1_residuals (fitAR1OnDiff [Fin 94, Fin 98, Fin 100]) \<noteq> []"
    by (simp add: fitAR1OnDiff_def differences_def Let_def upt_rec split: prod.splits)
  then show ?thesis
    unfolding generateRealForecastsForStage5_def Let_def ar1_phi_example
    by (simp add: jnth_def)
qed

text \<open>
  C1. With a finite coefficient \<open>phi\<close>, last difference \<open>dLast\<close> and last price \<open>yLast\<close>,
  the twelve difference forecasts are \<open>phi * dLast\<close> and then \<open>phi\<close> times the previous
  forecast, and the level forecast at horizon \<open>h\<close> is \<open>yLast\<close> plus the first \<open>h\<close>
  difference forecasts. For \<open>phi = 0.5\<close>, \<open>dLast = 2\<close>, \<open>yLast = 100\<close> the first three
  difference forecasts are 1, 0.5, 0.25 and the level forecast at horizon 3 is 101.75;
  the prices 94, 98, 100 give exactly that fit, and the whole routine returns these
  values on them.
\<close>

theorem C1_forecast_recursion:
  "diffForecasts (forecast_steps (Fin phi) sigma2 (Fin yLast) (Fin dLast))
     = map (\<lambda>h. Fin (spec_diff phi dLast h)) [1..<13]
   \<and> pointForecasts (forecast_steps (Fin phi) sigma2 (Fin yLast) (Fin dLast))
     = map (\<lambda>h. Fin (spec_level phi dLast yLast h)) [1..<13]
   \<and> take 3 (diffForecasts (forecast_steps (Fin 0.5) sigma2 (Fin 100) (Fin 2)))
     = [Fin 1, Fin 0.5, Fin 0.25]
   \<and> pointForecasts (forecast_steps (Fin 0.5) sigma2 (Fin 100) (Fin 2)) ! 2 = Fin 101.75
   \<and> take 3 (diffForecasts (generateRealForecastsForStage5 [Fin 94, Fin 98, Fin 100]))
     = [Fin 1, Fin 0.5, Fin 0.25]
   \<and> pointForecasts (generateRealForecastsForStage5 [Fin 94, Fin 98, Fin 100]) ! 2 = Fin 101.75"
proof -
  have d: "diffForecasts (forecast_steps (Fin p) s (Fin y) (Fin d))
             = map (\<lambda>h. Fin (spec_diff p d h)) [1..<13]" for p s y d
    by (simp add: forecast_steps_def Let_def forecast_diffs_Fin del: upt_Suc One_nat_def)
  have d3: "take 3 (map (\<lambda>h. Fin (spec_diff 0.5 2 h)) [1..<13]) = [Fin 1, Fin 0.5, Fin 0.25]"
    by (simp add: upt_rec eval_nat_numeral)
  have l3: "map (\<lambda>h. Fin (spec_level 0.5 2 100 h)) [1..<13] ! 2 = Fin 101.75"
    by (simp add: spec_level_def eval_nat_numeral upt_rec)
  show ?thesis
    unfolding stage5_example d point_Fin d3 l3 by simp
qed

section \<open>Diagnostic p-values (C9)\<close>

lemma nn_square: "nonneg_or_NaN (x * x)"
  by (cases x) (simp_all add: nonneg_or_NaN_def)

lemma nn_pow2: "nonneg_or_NaN (Math_pow x (Fin 2))"
  by (cases x) (simp_all add: Math_pow.simps nonneg_or_NaN_def is_int_def is_odd_int_def int_power_def)

lemma nn_divide: "nonneg_or_NaN x \<Longrightarrow> 0 < c \<Longrightarrow> nonneg_or_NaN (x / Fin c)"
  by (cases x) (simp_all add: nonneg_or_NaN_def)

lemma nn_plus: "nonneg_or_NaN x \<Longrightarrow> nonneg_or_NaN y \<Longrightarrow> nonneg_or_NaN (x + y)"
  by (cases x; cases y) (simp_all add: nonneg_or_NaN_def)

lemma nn_scale: "nonneg_or_NaN y \<Longrightarrow> 0 \<le> c \<Longrightarrow> nonneg_or_NaN (Fin c * y)"
  by (cases y) (simp_all add: nonneg_or_NaN_def)

lemma exp_tail_ok: "nonneg_or_NaN x \<Longrightarrow> pvalue_ok (Math_exp ((- x) / Fin 2))"
  by (cases x) (simp_all add: nonneg_or_NaN_def pvalue_ok_def)

lemma clamp_ok: "pvalue_ok (Math_min (Math_max p (Fin 0)) (Fin 1))"
  by (cases p) (simp_all add: pvalue_ok_def)

lemma chiSquareUpperTailP_ok: "pvalue_ok (chiSquareUpperTailP Q df)"
  by (simp add: chiSquareUpperTailP_def Let_def clamp_ok) (simp add: pvalue_ok_def)

lemma jb_ok: "pvalue_ok (jb_pValue (computeJarqueBera values))"
proof (cases "length values < 8")
  case True
  then show ?thesis by (simp add: computeJarqueBera_def pvalue_ok_def)
next
  case False
  have "nonneg_or_NaN (Fin (real (length values) / 6) * (s * s + Math_pow (k - Fin 3) (Fin 2) / Fin 4))" for s k
    by (intro nn_scale nn_plus nn_square nn_divide nn_pow2) simp_all
  with False show ?thesis
    by (simp add: computeJarqueBera_def Let_def exp_tail_ok split: prod.splits)
qed

lemma adf_ok: "pvalue_ok (adf_pValue (adfTest prices))"
  by (simp add: adfTest_def Let_def pvalue_ok_def)

lemma lb_ok: "pvalue_ok (lb_pValue (ljungBoxTest residuals m p))"
  by (simp add: ljungBoxTest_def Let_def chiSquareUpperTailP_ok) (simp add: pvalue_ok_def)

lemma arch_ok: "pvalue_ok (arch_pValue (archLMTest residuals m))"
  by (simp add: archLMTest_def Let_def chiSquareUpperTailP_ok split: prod.splits) (simp add: pvalue_ok_def)

text \<open>
  C9. The p-value of each diagnostic test (\<open>adfTest\<close>, \<open>ljungBoxTest\<close>, \<open>archLMTest\<close>,
  \<open>computeJarqueBera\<close>) and of the chi-square upper-tail approximation is NaN or a
  number in the closed interval from 0 to 1, on every input.
\<close>

theorem C9_pvalues_in_unit_interval:
  "pvalue_ok (adf_pValue (adfTest prices))
   \<and> pvalue_ok (lb_pValue (ljungBoxTest residuals m p))
   \<and> pvalue_ok (arch_pValue (archLMTest residuals m))
   \<and> pvalue_ok (jb_pValue (computeJarqueBera values))
   \<and> pvalue_ok (chiSquareUpperTailP Q df)"
  by (simp only: adf_ok lb_ok arch_ok jb_ok chiSquareUpperTailP_ok simp_thms)

section \<open>Samples below the minimum size (C6)\<close>

lemma adf_short:
  assumes "length prices < 3"
  shows "adf_statistic (adfTest prices) = NaN \<and> adf_pValue (adfTest prices) = Fin 0.15
         \<and> \<not> adf_isStationary (adfTest prices)"
proof -
  consider "prices = []" | a where "prices = [a]" | a b where "prices = [a, b]"
  proof (cases prices)
    case Nil
    then show ?thesis using that by simp
  next
    case (Cons a qs)
    then show ?thesis using that assms by (cases qs) simp_all
  qed
  then have "adf_statistic (adfTest prices) = NaN"
  proof cases
    case 1
    then show ?thesis by (simp add: adfTest_def differences_def jsum_def Let_def)
  next
    case 2
    then show ?thesis by (simp add: adfTest_def differences_def jsum_def Let_def)
  next
    case 3
    have "(Fin 0 + Math_pow (d - (Fin 0 + d) / Fin 1) (Fin 2)) / Fin 0 = NaN" for d
      by (cases d) (simp_all add: Math_pow.simps minus_jsnum_def)
    with 3 show ?thesis
      by (simp add: adfTest_def differences_def jsum_def Let_def jnth_def upt_rec)
  qed
  then show ?thesis
    by (simp add: adfTest_def Let_def)
qed

text \<open>
  On the two prices 1, 2 the statistic is NaN (the variance of the single difference is
  \<open>0 / 0\<close>), and the p-value is 0.15, not NaN.
\<close>

theorem C6_adf_pvalue_counterexample:
  "adf_statistic (adfTest [Fin 1, Fin 2]) = NaN
   \<and> adf_pValue (adfTest [Fin 1, Fin 2]) = Fin 0.15
   \<and> adf_pValue (adfTest [Fin 1, Fin 2]) \<noteq> NaN"
  by (simp add: adfTest_def differences_def jsum_def Let_def jnth_def upt_rec Math_pow.simps)

lemma lb_short: "length residuals < m + 1 \<Longrightarrow> ljungBoxTest residuals m p = \<lparr>lb_Q = NaN, lb_pValue = NaN\<rparr>"
  by (simp add: ljungBoxTest_def)

lemma jb_short: "length values < 8 \<Longrightarrow> computeJarqueBera values = \<lparr>jb_jb = NaN, jb_pValue = NaN\<rparr>"
  by (simp add: computeJarqueBera_def)

text \<open>
  C6, amended. On a sample below its minimum size each test returns without failing:
  \<open>adfTest\<close> on fewer than three prices returns a NaN statistic and the fixed p-value
  0.15 of a series it does not call stationary; \<open>ljungBoxTest\<close> with \<open>n < m + 1\<close>
  returns NaN for \<open>Q\<close> and the p-value; \<open>computeJarqueBera\<close> with \<open>n < 8\<close> returns NaN
  for the statistic and the p-value.
\<close>

theorem C6_short_samples:
  "(length prices < 3 \<longrightarrow>
      adf_statistic (adfTest prices) = NaN \<and> adf_pValue (adfTest prices) = Fin 0.15
      \<and> \<not> adf_isStationary (adfTest prices))
   \<and> (length residuals < m + 1 \<longrightarrow> ljungBoxTest residuals m p = \<lparr>lb_Q = NaN, lb_pValue = NaN\<rparr>)
   \<and> (length values < 8 \<longrightarrow> computeJarqueBera values = \<lparr>jb_jb = NaN, jb_pValue = NaN\<rparr>)"
  using adf_short lb_short jb_short by blast

theorem C6_short_samples_witness:
  "adf_statistic (adfTest [Fin 3]) = NaN \<and> adf_pValue (adfTest [Fin 3]) = Fin 0.15
   \<and> lb_pValue (ljungBoxTest [Fin 1, Fin 2] 2 1) = NaN
   \<and> jb_pValue (computeJarqueBera [Fin 1, Fin 2, Fin 3]) = NaN"
  using C6_short_samples [of "[Fin 3]" "[Fin 1, Fin 2]" 2 1 "[Fin 1, Fin 2, Fin 3]"]
  by simp

section \<open>The AR(1) fit (C5)\<close>

lemma differences_Fin: "differences (map Fin ps) = map Fin (spec_differences ps)"
  by (auto simp add: differences_def spec_differences_def jnth_def)

lemma length_spec_differences [simp]: "length (spec_differences ps) = length ps - 1"
  by (simp add: spec_differences_def)

lemma foldl_Fin_index:
  assumes "\<And>i. i \<in> set js \<Longrightarrow> g i = Fin (f i)"
  shows "foldl (\<lambda>acc i. acc + g i) (Fin a) js = Fin (a + sum_list (map f js))"
  using assms by (induction js arbitrary: a) (simp_all add: add.assoc)

lemma foldl_Fin_pair:
  assumes "\<And>i. i \<in> set js \<Longrightarrow> g i = Fin (f i)" "\<And>i. i \<in> set js \<Longrightarrow> g' i = Fin (f' i)"
  shows "foldl (\<lambda>(u, v) i. (u + g i, v + g' i)) (Fin a, Fin b) js
           = (Fin (a + sum_list (map f js)), Fin (b + sum_list (map f' js)))"
  using assms by (induction js arbitrary: a b) (simp_all add: add.assoc)

lemma foldl_squares_Fin:
  "foldl (\<lambda>s e. s + e * e) (Fin a) (map Fin es) = Fin (a + (\<Sum>e\<leftarrow>es. e * e))"
  by (induction es arbitrary: a) (simp_all add: add.assoc)

lemma sigma2_of_Fin:
  "es \<noteq> [] \<Longrightarrow> sigma2_of (map Fin es) = Fin (spec_sigma2 es)"
  by (cases es) (simp_all add: sigma2_of_def foldl_squares_Fin spec_sigma2_def max_def)

lemma truthy_Fin [simp]: "truthy (Fin a) \<longleftrightarrow> a \<noteq> 0"
  by (simp add: truthy_def)

lemma sum_list_upt: "sum_list (map f [0..<n]) = (\<Sum>i<n. f i)"
  by (simp add: interv_sum_list_conv_sum_set_nat atLeast0LessThan)

lemma fitAR1_sums:
  fixes d :: "real list"
  defines "X \<equiv> take (length d - 1) (map Fin d)" and "Y \<equiv> drop 1 (map Fin d)"
  shows "foldl (\<lambda>(num, den) i. (num + jnth Y i * jnth X i, den + jnth X i * jnth X i))
           (Fin 0, Fin 0) [0..<length X]
         = (Fin (\<Sum>i < length d - 1. d ! (i + 1) * d ! i), Fin (\<Sum>i < length d - 1. d ! i * d ! i))"
proof -
  have len: "length X = length d - 1" by (simp add: X_def)
  have x: "jnth X i = Fin (d ! i)" if "i < length d - 1" for i
    using that by (simp add: X_def jnth_def)
  have y: "jnth Y i = Fin (d ! (i + 1))" if "i < length d - 1" for i
    using that by (simp add: Y_def jnth_def)
  have "foldl (\<lambda>(u, v) i. (u + jnth Y i * jnth X i, v + jnth X i * jnth X i))
           (Fin 0, Fin 0) [0..<length d - 1]
         = (Fin (0 + sum_list (map (\<lambda>i. d ! (i + 1) * d ! i) [0..<length d - 1])),
            Fin (0 + sum_list (map (\<lambda>i. d ! i * d ! i) [0..<length d - 1])))"
    by (rule foldl_Fin_pair) (simp_all add: x y)
  then show ?thesis
    by (simp add: len sum_list_upt)
qed

lemma fitAR1_residuals:
  fixes d :: "real list"
  defines "X \<equiv> take (length d - 1) (map Fin d)" and "Y \<equiv> drop 1 (map Fin d)"
  shows "map (\<lambda>i. jnth Y i - Fin phi * jnth X i) [0..<length Y]
         = map Fin (map (\<lambda>i. d ! (i + 1) - phi * d ! i) [0..<length d - 1])"
  by (auto simp add: X_def Y_def jnth_def)

lemma Math_max_Fin [simp]: "Math_max (Fin a) (Fin b) = Fin (max a b)"
  by (simp add: max_def)

lemma Math_min_Fin [simp]: "Math_min (Fin a) (Fin b) = Fin (min a b)"
  by (simp add: min_def)

lemma spec_sigma2_nonneg: "0 \<le> spec_sigma2 es"
  unfolding spec_sigma2_def by (intro divide_nonneg_nonneg sum_list_nonneg) auto

lemma fitAR1OnDiff_closed_form:
  assumes "3 \<le> length ps"
  defines "d \<equiv> spec_differences ps"
  defines "nEff \<equiv> length ps - 2"
  defines "s2 \<equiv> spec_sigma2 (spec_ar1_residuals d)"
  defines "t \<equiv> (if spec_ar1_se d = 0 then NaN else Fin (spec_ar1_phi d / spec_ar1_se d))"
  shows "fitAR1OnDiff (map Fin ps) =
     \<lparr>ar1_phi = Fin (spec_ar1_phi d), ar1_residuals = map Fin (spec_ar1_residuals d),
      ar1_sigma2 = Fin s2, ar1_se = Fin (spec_ar1_se d), ar1_t = t,
      ar1_pValue = Fin 2 * (Fin 1 - normalCdf (Math_abs t)),
      ar1_AIC = AIC_of (logL_of nEff (Fin s2)) 2,
      ar1_BIC = BIC_of (logL_of nEff (Fin s2)) 2 nEff\<rparr>"
proof -
  define NUM where "NUM = (\<Sum>i < length d - 1. d ! (i + 1) * d ! i)"
  define DEN where "DEN = (\<Sum>i < length d - 1. d ! i * d ! i)"
  have ld: "length d = length ps - 1" by (simp add: d_def)
  have res_ne: "spec_ar1_residuals d \<noteq> []"
    using assms(1) by (simp add: spec_ar1_residuals_def ld)
  have g: "\<not> length (map Fin ps) < 3"
    using assms(1) by simp
  have R1: "foldl (\<lambda>(num, den) i.
                (num + jnth (drop 1 (map Fin d)) i * jnth (take (length (map Fin d) - 1) (map Fin d)) i,
                 den + jnth (take (length (map Fin d) - 1) (map Fin d)) i
                       * jnth (take (length (map Fin d) - 1) (map Fin d)) i))
              (Fin 0, Fin 0) [0..<length (take (length (map Fin d) - 1) (map Fin d))]
            = (Fin NUM, Fin DEN)"
    using fitAR1_sums [of d] by (simp add: NUM_def DEN_def)
  have R2: "(if truthy (Fin DEN) then Fin NUM / Fin DEN else Fin 0) = Fin (spec_ar1_phi d)"
    by (simp add: spec_ar1_phi_def NUM_def DEN_def)
  have R3: "map (\<lambda>i. jnth (drop 1 (map Fin d)) i
                   - Fin (spec_ar1_phi d) * jnth (take (length (map Fin d) - 1) (map Fin d)) i)
              [0..<length (drop 1 (map Fin d))]
            = map Fin (spec_ar1_residuals d)"
    using fitAR1_residuals [of d "spec_ar1_phi d"] by (simp add: spec_ar1_residuals_def)
  have R4: "sigma2_of (map Fin (spec_ar1_residuals d)) = Fin s2"
    using res_ne by (simp add: sigma2_of_Fin s2_def)
  have R5: "length (map Fin (spec_ar1_residuals d)) = nEff"
    by (simp add: spec_ar1_residuals_def ld nEff_def)
  have R6: "Math_sqrt (Fin s2 / Math_max (Fin DEN) (Fin (1 / 10 ^ 12))) = Fin (spec_ar1_se d)"
  proof -
    define M where "M = max DEN (1 / 10 ^ 12)"
    have M: "0 < M" by (simp add: M_def less_max_iff_disj)
    have "0 \<le> s2 / M"
      unfolding s2_def using M by (intro divide_nonneg_nonneg spec_sigma2_nonneg) simp
    moreover have "Math_max (Fin DEN) (Fin (1 / 10 ^ 12)) = Fin M"
      unfolding M_def by (rule Math_max_Fin)
    moreover have "spec_ar1_se d = sqrt (s2 / M)"
      by (simp add: spec_ar1_se_def s2_def M_def DEN_def)
    ultimately show ?thesis
      using M by simp
  qed
  have R7: "(if truthy (Fin (spec_ar1_se d)) then Fin (spec_ar1_phi d) / Fin (spec_ar1_se d) else NaN) = t"
    by (simp add: t_def)
  show ?thesis
    unfolding fitAR1OnDiff_def Let_def differences_Fin d_def[symmetric] R1 prod.case R2 R3 R4 R5 R6 R7
    using g by simp
qed

lemma ic_relation_Fin:
  assumes "0 \<le> s" "1 \<le> n"
  shows "ic_relation (AIC_of (logL_of n (Fin s)) k) (BIC_of (logL_of n (Fin s)) k n) k n"
proof (cases "s = 0")
  case True
  with assms(2) show ?thesis
    by (simp add: ic_relation_def AIC_of_def BIC_of_def logL_of_def jeq_def max_def)
next
  case False
  with assms show ?thesis
    by (simp add: ic_relation_def AIC_of_def BIC_of_def logL_of_def jeq_def max_def algebra_simps)
qed

lemma finite_list_conv: "list_all isFinite rs \<longleftrightarrow> (\<exists>es. rs = map Fin es)"
proof
  assume "list_all isFinite rs"
  then show "\<exists>es. rs = map Fin es"
  proof (induction rs)
    case Nil
    then show ?case by simp
  next
    case (Cons r rs)
    then obtain a es where "r = Fin a" "rs = map Fin es"
      by (auto simp add: isFinite_iff)
    then show ?case by (intro exI [of _ "a # es"]) simp
  qed
next
  assume "\<exists>es. rs = map Fin es"
  then show "list_all isFinite rs" by (auto simp add: list_all_iff)
qed

lemma ic_relation_finite_residuals:
  assumes "rs \<noteq> []" "list_all isFinite rs"
  shows "ic_relation (AIC_of (logL_of (length rs) (sigma2_of rs)) k)
           (BIC_of (logL_of (length rs) (sigma2_of rs)) k (length rs)) k (length rs)"
proof -
  obtain es where es: "rs = map Fin es"
    using assms(2) finite_list_conv by blast
  with assms(1) have "es \<noteq> []" by auto
  then have "sigma2_of rs = Fin (spec_sigma2 es)" "1 \<le> length rs"
    by (simp_all add: es sigma2_of_Fin Suc_leI)
  then show ?thesis
    using ic_relation_Fin [OF spec_sigma2_nonneg, of "length rs" es k] by simp
qed

text \<open>
  The prices 1, 2, 4 have two differences, fewer than three; the fitter does not
  return the NaN result on them: the coefficient is 2, there is one residual, 0, and
  the residual variance is 0.
\<close>

theorem C5_two_differences_counterexample:
  "length (differences [Fin 1, Fin 2, Fin 4]) = 2
   \<and> ar1_phi (fitAR1OnDiff [Fin 1, Fin 2, Fin 4]) = Fin 2
   \<and> ar1_residuals (fitAR1OnDiff [Fin 1, Fin 2, Fin 4]) = [Fin 0]
   \<and> ar1_sigma2 (fitAR1OnDiff [Fin 1, Fin 2, Fin 4]) = Fin 0"
  by (simp add: fitAR1OnDiff_def differences_def jnth_def upt_rec Let_def sigma2_of_def)

text \<open>
  C5, amended. The guard of \<open>fitAR1OnDiff\<close> is on the number of prices: with fewer than
  three prices (fewer than two differences) every numeric field is NaN and there is no
  residual; with at least three finite prices the result is the closed-form fit: the
  coefficient \<open>spec_ar1_phi\<close>, its residuals, their mean square, the standard error,
  the t statistic (NaN when the standard error is 0), the p-value from \<open>normalCdf\<close>, and
  AIC and BIC with two parameters on \<open>length ps - 2\<close> residuals. The function is total:
  no input makes it fail.
\<close>

theorem C5_fitAR1OnDiff_guard_and_fit:
  "(length prices < 3 \<longrightarrow>
      fitAR1OnDiff prices =
        \<lparr>ar1_phi = NaN, ar1_residuals = [], ar1_sigma2 = NaN, ar1_se = NaN, ar1_t = NaN,
         ar1_pValue = NaN, ar1_AIC = NaN, ar1_BIC = NaN\<rparr>)
   \<and> (3 \<le> length ps \<longrightarrow>
      (let d = spec_differences ps;
           nEff = length ps - 2;
           s2 = spec_sigma2 (spec_ar1_residuals d);
           t = (if spec_ar1_se d = 0 then NaN else Fin (spec_ar1_phi d / spec_ar1_se d))
       in fitAR1OnDiff (map Fin ps) =
            \<lparr>ar1_phi = Fin (spec_ar1_phi d), ar1_residuals = map Fin (spec_ar1_residuals d),
             ar1_sigma2 = Fin s2, ar1_se = Fin (spec_ar1_se d), ar1_t = t,
             ar1_pValue = Fin 2 * (Fin 1 - normalCdf (Math_abs t)),
             ar1_AIC = AIC_of (logL_of nEff (Fin s2)) 2,
             ar1_BIC = BIC_of (logL_of nEff (Fin s2)) 2 nEff\<rparr>))"
  unfolding Let_def using fitAR1OnDiff_closed_form [of ps] by (simp add: fitAR1OnDiff_def)

lemma spec_ar1_example:
  "spec_differences [1, 2, 4] = [1, 2]" "spec_ar1_phi [1, 2] = 2" "spec_ar1_residuals [1, 2] = [0]"
  by (simp_all add: spec_differences_def spec_ar1_phi_def spec_ar1_residuals_def upt_rec)

theorem C5_fitAR1OnDiff_guard_and_fit_witness:
  "ar1_phi (fitAR1OnDiff [Fin 1, Fin 2]) = NaN \<and> ar1_residuals (fitAR1OnDiff [Fin 1, Fin 2]) = []
   \<and> ar1_phi (fitAR1OnDiff (map Fin [1, 2, 4])) = Fin 2
   \<and> ar1_residuals (fitAR1OnDiff (map Fin [1, 2, 4])) = [Fin 0]"
  using C5_fitAR1OnDiff_guard_and_fit [of "[Fin 1, Fin 2]" "[1, 2, 4]"]
  by (simp add: Let_def spec_ar1_example)

section \<open>The MA(1) coefficient (C4)\<close>

lemma clamp_rho1_bound: "\<bar>clamp_rho1 rho1\<bar> \<le> 0.49"
  by (simp add: clamp_rho1_def max_def min_def abs_if)

lemma theta_root_bounds:
  fixes r :: real
  assumes "\<bar>r\<bar> \<le> 0.49" "r \<noteq> 0"
  defines "s \<equiv> sqrt (1 - 4 * r * r)"
  shows "0 \<le> 1 - 4 * r * r" and "\<bar>(1 - s) / (2 * r)\<bar> \<le> 0.98"
    and "(1 - s) / (2 * r) / (1 + ((1 - s) / (2 * r))\<^sup>2) = r"
proof -
  have "r\<^sup>2 \<le> (0.49)\<^sup>2"
    using assms(1) by (simp add: abs_le_square_iff [symmetric])
  then have rr: "r * r \<le> 0.2401"
    by (simp add: power2_eq_square)
  then show disc: "0 \<le> 1 - 4 * r * r" by simp
  have s0: "0 \<le> s" and s2: "s * s = 1 - 4 * r * r"
    using disc by (simp_all add: s_def)
  have s_pos: "0 < s"
  proof -
    have "0 < 1 - 4 * r * r" using rr by simp
    then show ?thesis by (simp add: s_def)
  qed
  have s1: "s \<le> 1"
  proof -
    have "1 - 4 * r * r \<le> 1" by simp
    then have "sqrt (1 - 4 * r * r) \<le> sqrt 1" by (simp only: real_sqrt_le_iff)
    then show ?thesis by (simp add: s_def)
  qed
  have prod: "(1 - s) * (1 + s) = 4 * r * r"
    using s2 by (simp add: algebra_simps)
  have "1 - s \<le> (1 - s) * (1 + s)"
    using s0 s1 by (simp add: mult_le_cancel_left1)
  then have num: "1 - s \<le> 4 * r * r" using prod by simp
  have "\<bar>(1 - s) / (2 * r)\<bar> = (1 - s) / (2 * \<bar>r\<bar>)"
    using s1 by (simp add: abs_mult)
  also have "\<dots> \<le> (4 * r * r) / (2 * \<bar>r\<bar>)"
    using num by (intro divide_right_mono) simp_all
  also have "\<dots> = 2 * \<bar>r\<bar>"
    using assms(2) by (simp add: abs_if)
  also have "\<dots> \<le> 0.98" using assms(1) by simp
  finally show "\<bar>(1 - s) / (2 * r)\<bar> \<le> 0.98" .
  have ne: "1 - s \<noteq> 0"
    using prod assms(2) by auto
  have "1 + ((1 - s) / (2 * r))\<^sup>2 = (4 * r * r + (1 - s) * (1 - s)) / (4 * r * r)"
    using assms(2) by (simp add: power2_eq_square field_simps)
  also have "4 * r * r + (1 - s) * (1 - s) = 2 * (1 - s)"
    using s2 by (simp add: algebra_simps)
  finally have D: "1 + ((1 - s) / (2 * r))\<^sup>2 = 2 * (1 - s) / (4 * r * r)" .
  have "2 - 2 * s \<noteq> 0" using ne by simp
  then have "(1 - s) / (2 * r) / (2 * (1 - s) / (4 * r * r)) = r"
    using ne assms(2) by (simp add: field_simps)
  then show "(1 - s) / (2 * r) / (1 + ((1 - s) / (2 * r))\<^sup>2) = r"
    by (simp only: D)
qed

lemma estimateThetaFromACF1_Fin:
  "estimateThetaFromACF1 (Fin rho1) = Fin (spec_theta (clamp_rho1 rho1))"
proof -
  define r where "r = clamp_rho1 rho1"
  have r: "Math_max (Fin (- 0.49)) (Math_min (Fin 0.49) (Fin rho1)) = Fin r"
    by (simp add: r_def clamp_rho1_def)
  show ?thesis
  proof (cases "\<bar>r\<bar> < 1 / 10 ^ 6")
    case True
    then show ?thesis
      unfolding estimateThetaFromACF1_def r Let_def r_def[symmetric] spec_theta_def by simp
  next
    case False
    then have nz: "r \<noteq> 0" by auto
    have b: "\<bar>r\<bar> \<le> 0.49" unfolding r_def by (rule clamp_rho1_bound)
    note tb = theta_root_bounds [OF b nz]
    define th where "th = (1 - sqrt (1 - 4 * r * r)) / (2 * r)"
    have disc: "Fin 1 - Fin 4 * Fin r * Fin r = Fin (1 - 4 * r * r)" by simp
    have t1: "(Fin 1 - Math_sqrt (Fin (1 - 4 * r * r))) / (Fin 2 * Fin r) = Fin th"
      using tb(1) nz by (simp add: th_def)
    have th: "\<bar>th\<bar> \<le> 0.98" using tb(2) by (simp add: th_def)
    show ?thesis
      unfolding estimateThetaFromACF1_def r Let_def disc t1
      using False tb(1) th by (simp add: spec_theta_def r_def[symmetric] th_def[symmetric] jgt_def)
  qed
qed

lemma jsum_Fin: "jsum (map Fin rs) = Fin (sum_list rs)"
proof -
  have "foldl (\<lambda>a b. a + b) (Fin a) (map Fin rs) = Fin (a + sum_list rs)" for a
    by (induction rs arbitrary: a) (simp_all add: add.assoc)
  then show ?thesis by (simp add: jsum_def)
qed

lemma demeaned_Fin: "ds \<noteq> [] \<Longrightarrow> demeaned (map Fin ds) = map Fin (spec_demeaned ds)"
  by (simp add: demeaned_def spec_demeaned_def jsum_Fin Let_def)

lemma isFinite_arith:
  "isFinite a \<Longrightarrow> isFinite b \<Longrightarrow> isFinite (a + b)"
  "isFinite a \<Longrightarrow> isFinite b \<Longrightarrow> isFinite (a - b)"
  "isFinite a \<Longrightarrow> isFinite b \<Longrightarrow> isFinite (a * b)"
  by (auto simp add: isFinite_iff)

lemma isFinite_jnth: "i < length xs \<Longrightarrow> isFinite (jnth (map Fin xs) i)"
  by simp

lemma residual_loop_finite:
  assumes "\<And>t e. t \<in> set js \<Longrightarrow> isFinite e \<Longrightarrow> isFinite (F t e)"
    and "isFinite e0" and "list_all isFinite rs0"
  shows "case foldl (\<lambda>(epsPrev, residuals) t. let eps = F t epsPrev in (eps, residuals @ [eps]))
                (e0, rs0) js of
           (e, rs) \<Rightarrow> isFinite e \<and> list_all isFinite rs \<and> length rs = length rs0 + length js"
  using assms
proof (induction js arbitrary: e0 rs0)
  case Nil
  then show ?case by simp
next
  case (Cons t js)
  have "isFinite (F t e0)" using Cons.prems by simp
  moreover have "list_all isFinite (rs0 @ [F t e0])"
    using Cons.prems calculation by simp
  ultimately have "case foldl (\<lambda>(epsPrev, residuals) t. let eps = F t epsPrev in (eps, residuals @ [eps]))
                (F t e0, rs0 @ [F t e0]) js of
           (e, rs) \<Rightarrow> isFinite e \<and> list_all isFinite rs \<and> length rs = length (rs0 @ [F t e0]) + length js"
    using Cons.prems(1) by (intro Cons.IH) simp_all
  then show ?case by (simp add: Let_def)
qed

lemma isFinite_ma1_rho1: "isFinite (ma1_rho1 x)"
  by (simp add: ma1_rho1_def Let_def)

lemma fitMA1OnDiff_structure:
  assumes "3 \<le> length prices"
  shows "ma1_theta (fitMA1OnDiff prices) = estimateThetaFromACF1 (ma1_rho1 (demeaned (differences prices)))"
    and "ma1_sigma2 (fitMA1OnDiff prices) = sigma2_of (ma1_residuals (fitMA1OnDiff prices))"
    and "ma1_logL (fitMA1OnDiff prices)
           = logL_of (length (ma1_residuals (fitMA1OnDiff prices))) (ma1_sigma2 (fitMA1OnDiff prices))"
    and "ma1_AIC (fitMA1OnDiff prices) = AIC_of (ma1_logL (fitMA1OnDiff prices)) 2"
    and "ma1_BIC (fitMA1OnDiff prices)
           = BIC_of (ma1_logL (fitMA1OnDiff prices)) 2 (length (ma1_residuals (fitMA1OnDiff prices)))"
  using assms by (simp_all add: fitMA1OnDiff_def Let_def split: prod.splits)

lemma fitMA1OnDiff_residuals_finite:
  assumes "3 \<le> length ps"
  shows "list_all isFinite (ma1_residuals (fitMA1OnDiff (map Fin ps)))"
    and "length (ma1_residuals (fitMA1OnDiff (map Fin ps))) = length ps - 1"
proof -
  define xs where "xs = spec_demeaned (spec_differences ps)"
  have dne: "spec_differences ps \<noteq> []"
  proof
    assume "spec_differences ps = []"
    then have "length (spec_differences ps) = 0"
      by (simp del: length_spec_differences)
    then show False using assms by simp
  qed
  have x: "demeaned (differences (map Fin ps)) = map Fin xs"
    using dne by (simp add: differences_Fin demeaned_Fin xs_def)
  have lx: "length xs = length ps - 1"
    by (simp add: xs_def spec_demeaned_def)
  obtain th where th: "estimateThetaFromACF1 (ma1_rho1 (map Fin xs)) = Fin th"
    using isFinite_ma1_rho1 [of "map Fin xs"] by (auto simp add: isFinite_iff estimateThetaFromACF1_Fin)
  have loop: "case foldl (\<lambda>(epsPrev, residuals) t.
                        let eps = jnth (map Fin xs) t - Fin th * epsPrev in (eps, residuals @ [eps]))
                (Fin 0, []) [0..<length (map Fin xs)] of
           (e, rs) \<Rightarrow> isFinite e \<and> list_all isFinite rs
                      \<and> length rs = length ([] :: jsnum list) + length [0..<length (map Fin xs)]"
    by (rule residual_loop_finite) (simp_all add: isFinite_arith)
  have g: "\<not> length (map Fin ps) < 3" using assms by simp
  show "list_all isFinite (ma1_residuals (fitMA1OnDiff (map Fin ps)))"
    and "length (ma1_residuals (fitMA1OnDiff (map Fin ps))) = length ps - 1"
    using loop g unfolding fitMA1OnDiff_def Let_def x th
    by (simp_all add: lx split: prod.splits)
qed

lemma Math_pow_2 [simp]: "Math_pow (Fin a) (Fin 2) = Fin (a * a)"
  by (simp add: Math_pow.simps is_int_def int_power_def power2_eq_square)

lemma sqrt_16_25: "sqrt (16 / 25) = 4 / 5"
  by (rule real_sqrt_unique) (simp_all add: power2_eq_square)

lemma ma1_example_rho1:
  "ma1_rho1 (demeaned (differences [Fin 10, Fin 6, Fin 4, Fin 6, Fin 10])) = Fin 0.3"
  by (simp add: differences_def demeaned_def jsum_def ma1_rho1_def calculateACF_def
      Let_def jnth_def upt_rec)

text \<open>
  On the prices 10, 6, 4, 6, 10 the lag-1 autocorrelation of the de-meaned differences
  is 0.3, inside the clamp and above the tolerance; the coefficient returned is 1/3,
  and 0.3 is not \<open>-theta / (1 + theta^2)\<close> but \<open>theta / (1 + theta^2)\<close>.
\<close>

theorem C4_sign_counterexample:
  "ma1_rho1 (demeaned (differences [Fin 10, Fin 6, Fin 4, Fin 6, Fin 10])) = Fin 0.3
   \<and> clamp_rho1 0.3 = 0.3
   \<and> ma1_theta (fitMA1OnDiff [Fin 10, Fin 6, Fin 4, Fin 6, Fin 10]) = Fin (1 / 3)
   \<and> (0.3 :: real) \<noteq> - (1 / 3) / (1 + (1 / 3)\<^sup>2)
   \<and> (0.3 :: real) = (1 / 3) / (1 + (1 / 3)\<^sup>2)"
proof -
  have "spec_theta (clamp_rho1 0.3) = 1 / 3"
    by (simp add: spec_theta_def clamp_rho1_def sqrt_16_25)
  then have "ma1_theta (fitMA1OnDiff [Fin 10, Fin 6, Fin 4, Fin 6, Fin 10]) = Fin (1 / 3)"
    using fitMA1OnDiff_structure(1) [of "[Fin 10, Fin 6, Fin 4, Fin 6, Fin 10]"]
    by (simp add: ma1_example_rho1 estimateThetaFromACF1_Fin)
  then show ?thesis
    by (simp add: ma1_example_rho1 clamp_rho1_def power2_eq_square)
qed

text \<open>
  C4, amended. In \<open>fitMA1OnDiff\<close> on at least three finite prices, with \<open>r\<close> the lag-1
  autocorrelation that the fitter computes (0 when it is not finite) clamped to
  \<open>[-0.49, 0.49]\<close>: when \<open>|r|\<close> is at least the tolerance \<open>1e-6\<close> the coefficient returned
  satisfies \<open>r = theta / (1 + theta^2)\<close>, with \<open>|theta| \<le> 0.98\<close>, so it is the invertible
  root and the clamp to \<open>0.99\<close> never applies; below the tolerance the coefficient is 0.
\<close>

theorem C4_ma1_theta_root:
  assumes "3 \<le> length ps"
  shows "\<exists>rho1 theta.
           ma1_rho1 (demeaned (differences (map Fin ps))) = Fin rho1
           \<and> ma1_theta (fitMA1OnDiff (map Fin ps)) = Fin theta
           \<and> (1 / 10 ^ 6 \<le> \<bar>clamp_rho1 rho1\<bar> \<longrightarrow>
                clamp_rho1 rho1 = theta / (1 + theta\<^sup>2) \<and> \<bar>theta\<bar> \<le> 0.98)
           \<and> (\<bar>clamp_rho1 rho1\<bar> < 1 / 10 ^ 6 \<longrightarrow> theta = 0)"
proof -
  obtain rho1 where rho1: "ma1_rho1 (demeaned (differences (map Fin ps))) = Fin rho1"
    using isFinite_ma1_rho1 by (auto simp add: isFinite_iff)
  define r where "r = clamp_rho1 rho1"
  have th: "ma1_theta (fitMA1OnDiff (map Fin ps)) = Fin (spec_theta r)"
    using fitMA1OnDiff_structure(1) [of "map Fin ps"] assms
    by (simp add: rho1 estimateThetaFromACF1_Fin r_def)
  have "r = spec_theta r / (1 + (spec_theta r)\<^sup>2) \<and> \<bar>spec_theta r\<bar> \<le> 0.98"
    if "1 / 10 ^ 6 \<le> \<bar>r\<bar>"
  proof -
    have nz: "r \<noteq> 0" using that by auto
    have b: "\<bar>r\<bar> \<le> 0.49" unfolding r_def by (rule clamp_rho1_bound)
    have "spec_theta r = (1 - sqrt (1 - 4 * r * r)) / (2 * r)"
      using that by (simp add: spec_theta_def)
    then show ?thesis
      using theta_root_bounds(2,3) [OF b nz] by simp
  qed
  moreover have "spec_theta r = 0" if "\<bar>r\<bar> < 1 / 10 ^ 6"
    using that by (simp add: spec_theta_def)
  ultimately show ?thesis
    using rho1 th unfolding r_def by blast
qed

theorem C4_ma1_theta_root_witness:
  "\<exists>rho1 theta.
     ma1_rho1 (demeaned (differences (map Fin [10, 6, 4, 6, 10]))) = Fin rho1
     \<and> ma1_theta (fitMA1OnDiff (map Fin [10, 6, 4, 6, 10])) = Fin theta
     \<and> rho1 = 0.3 \<and> clamp_rho1 rho1 = theta / (1 + theta\<^sup>2) \<and> \<bar>theta\<bar> \<le> 0.98"
proof -
  obtain rho1 theta where w:
    "ma1_rho1 (demeaned (differences (map Fin [10, 6, 4, 6, 10]))) = Fin rho1"
    "ma1_theta (fitMA1OnDiff (map Fin [10, 6, 4, 6, 10])) = Fin theta"
    "1 / 10 ^ 6 \<le> \<bar>clamp_rho1 rho1\<bar> \<longrightarrow>
       clamp_rho1 rho1 = theta / (1 + theta\<^sup>2) \<and> \<bar>theta\<bar> \<le> 0.98"
    using C4_ma1_theta_root [of "[10, 6, 4, 6, 10]"] by auto
  have "rho1 = 0.3"
    using w(1) ma1_example_rho1 by simp
  moreover from this have "1 / 10 ^ 6 \<le> \<bar>clamp_rho1 rho1\<bar>"
    by (simp add: clamp_rho1_def)
  ultimately show ?thesis
    using w by blast
qed

section \<open>AIC and BIC (C3)\<close>

lemma arma_grid_fold_finite:
  "\<exists>p t s. foldl (\<lambda>(bestPhi, bestTheta, bestSigma2) (phi, theta).
              let sigma2 = arma_grid_sigma2 (Fin phi) (Fin theta) x
              in if jlt sigma2 bestSigma2 then (Fin phi, Fin theta, sigma2)
                 else (bestPhi, bestTheta, bestSigma2))
       (Fin p0, Fin t0, s0) grid = (Fin p, Fin t, s)"
proof (induction grid arbitrary: p0 t0 s0)
  case Nil
  then show ?case by simp
next
  case (Cons g grid)
  obtain phi theta where g: "g = (phi, theta)" by (cases g)
  show ?case
    using Cons.IH [of phi theta "arma_grid_sigma2 (Fin phi) (Fin theta) x"] Cons.IH [of p0 t0 s0]
    by (simp add: g Let_def)
qed

lemma arma_grid_search_finite: "\<exists>p t s. arma_grid_search x = (Fin p, Fin t, s)"
  unfolding arma_grid_search_def by (rule arma_grid_fold_finite)

lemma fitARMA11OnDiff_structure:
  assumes "4 \<le> length prices"
  shows "arma_sigma2 (fitARMA11OnDiff prices) = sigma2_of (arma_residuals (fitARMA11OnDiff prices))"
    and "arma_logL (fitARMA11OnDiff prices)
           = logL_of (length (arma_residuals (fitARMA11OnDiff prices))) (arma_sigma2 (fitARMA11OnDiff prices))"
    and "arma_AIC (fitARMA11OnDiff prices) = AIC_of (arma_logL (fitARMA11OnDiff prices)) 3"
    and "arma_BIC (fitARMA11OnDiff prices)
           = BIC_of (arma_logL (fitARMA11OnDiff prices)) 3 (length (arma_residuals (fitARMA11OnDiff prices)))"
  using assms by (simp_all add: fitARMA11OnDiff_def Let_def split: prod.splits)

lemma fitARMA11OnDiff_residuals_finite:
  assumes "4 \<le> length ps"
  shows "list_all isFinite (arma_residuals (fitARMA11OnDiff (map Fin ps)))"
    and "length (arma_residuals (fitARMA11OnDiff (map Fin ps))) = length ps - 2"
proof -
  define xs where "xs = spec_demeaned (spec_differences ps)"
  have dne: "spec_differences ps \<noteq> []"
  proof
    assume "spec_differences ps = []"
    then have "length (spec_differences ps) = 0"
      by (simp del: length_spec_differences)
    then show False using assms by simp
  qed
  have x: "demeaned (differences (map Fin ps)) = map Fin xs"
    using dne by (simp add: differences_Fin demeaned_Fin xs_def)
  have lx: "length xs = length ps - 1"
    by (simp add: xs_def spec_demeaned_def)
  obtain p t s where best: "arma_grid_search (map Fin xs) = (Fin p, Fin t, s)"
    using arma_grid_search_finite by blast
  have loop: "case foldl (\<lambda>(epsPrev, residuals) t'.
                        let eps = jnth (map Fin xs) t' - Fin p * jnth (map Fin xs) (t' - 1) - Fin t * epsPrev
                        in (eps, residuals @ [eps]))
                (Fin 0, []) [1..<length (map Fin xs)] of
           (e, rs) \<Rightarrow> isFinite e \<and> list_all isFinite rs
                      \<and> length rs = length ([] :: jsnum list) + length [1..<length (map Fin xs)]"
    by (rule residual_loop_finite) (auto simp add: isFinite_iff)
  have g: "\<not> length (map Fin ps) < 4" using assms by simp
  show "list_all isFinite (arma_residuals (fitARMA11OnDiff (map Fin ps)))"
    and "length (arma_residuals (fitARMA11OnDiff (map Fin ps))) = length ps - 2"
    using loop g unfolding fitARMA11OnDiff_def Let_def x best prod.case
    by (simp_all add: lx split: prod.splits)
qed

lemma fit_residuals_nonempty:
  "ar1_residuals (fitAR1OnDiff prices) \<noteq> [] \<Longrightarrow> 3 \<le> length prices"
  "ma1_residuals (fitMA1OnDiff prices) \<noteq> [] \<Longrightarrow> 3 \<le> length prices"
  "arma_residuals (fitARMA11OnDiff prices) \<noteq> [] \<Longrightarrow> 4 \<le> length prices"
  by (auto simp add: fitAR1OnDiff_def fitMA1OnDiff_def fitARMA11OnDiff_def split: if_splits)

lemma ar1_ic:
  assumes "3 \<le> length ps"
  shows "ic_relation (ar1_AIC (fitAR1OnDiff (map Fin ps))) (ar1_BIC (fitAR1OnDiff (map Fin ps))) 2
           (length (ar1_residuals (fitAR1OnDiff (map Fin ps))))"
proof -
  have "length (spec_ar1_residuals (spec_differences ps)) = length ps - 2"
    by (simp add: spec_ar1_residuals_def)
  moreover have "1 \<le> length ps - 2" using assms by simp
  ultimately show ?thesis
    using ic_relation_Fin [OF spec_sigma2_nonneg, of "length ps - 2"
        "spec_ar1_residuals (spec_differences ps)" 2]
    by (simp add: fitAR1OnDiff_closed_form [OF assms])
qed

lemma ma1_ic:
  assumes "3 \<le> length ps"
  shows "ic_relation (ma1_AIC (fitMA1OnDiff (map Fin ps))) (ma1_BIC (fitMA1OnDiff (map Fin ps))) 2
           (length (ma1_residuals (fitMA1OnDiff (map Fin ps))))"
proof -
  have l: "3 \<le> length (map Fin ps)" using assms by simp
  have "ma1_residuals (fitMA1OnDiff (map Fin ps)) \<noteq> []"
    using fitMA1OnDiff_residuals_finite(2) [OF assms] assms by auto
  then show ?thesis
    using ic_relation_finite_residuals [OF _ fitMA1OnDiff_residuals_finite(1) [OF assms], of 2]
    by (simp add: fitMA1OnDiff_structure [OF l])
qed

lemma arma_ic:
  assumes "4 \<le> length ps"
  shows "ic_relation (arma_AIC (fitARMA11OnDiff (map Fin ps))) (arma_BIC (fitARMA11OnDiff (map Fin ps))) 3
           (length (arma_residuals (fitARMA11OnDiff (map Fin ps))))"
proof -
  have l: "4 \<le> length (map Fin ps)" using assms by simp
  have "arma_residuals (fitARMA11OnDiff (map Fin ps)) \<noteq> []"
    using fitARMA11OnDiff_residuals_finite(2) [OF assms] assms by auto
  then show ?thesis
    using ic_relation_finite_residuals [OF _ fitARMA11OnDiff_residuals_finite(1) [OF assms], of 3]
    by (simp add: fitARMA11OnDiff_structure [OF l])
qed

text \<open>
  C3. On finite prices, each of the three fitters that returns at least one residual
  returns criteria with \<open>BIC = AIC + k * (ln nEff - 2)\<close>, where \<open>nEff\<close> is the number
  of residuals and \<open>k\<close> is 2 for AR(1) and MA(1) and 3 for ARMA(1,1). The two sides are
  equal as numbers of the language: neither is NaN (both are \<open>-Infinity\<close> when the
  residual variance is 0).
\<close>

theorem C3_aic_bic_relation:
  "(ar1_residuals (fitAR1OnDiff (map Fin ps)) \<noteq> [] \<longrightarrow>
      ic_relation (ar1_AIC (fitAR1OnDiff (map Fin ps))) (ar1_BIC (fitAR1OnDiff (map Fin ps))) 2
        (length (ar1_residuals (fitAR1OnDiff (map Fin ps)))))
   \<and> (ma1_residuals (fitMA1OnDiff (map Fin ps)) \<noteq> [] \<longrightarrow>
      ic_relation (ma1_AIC (fitMA1OnDiff (map Fin ps))) (ma1_BIC (fitMA1OnDiff (map Fin ps))) 2
        (length (ma1_residuals (fitMA1OnDiff (map Fin ps)))))
   \<and> (arma_residuals (fitARMA11OnDiff (map Fin ps)) \<noteq> [] \<longrightarrow>
      ic_relation (arma_AIC (fitARMA11OnDiff (map Fin ps))) (arma_BIC (fitARMA11OnDiff (map Fin ps))) 3
        (length (arma_residuals (fitARMA11OnDiff (map Fin ps)))))"
  using ar1_ic [of ps] ma1_ic [of ps] arma_ic [of ps]
    fit_residuals_nonempty [of "map Fin ps"]
  by auto

theorem C3_aic_bic_relation_witness:
  "length (ar1_residuals (fitAR1OnDiff (map Fin [10, 6, 4, 6, 10]))) = 3
   \<and> ic_relation (ar1_AIC (fitAR1OnDiff (map Fin [10, 6, 4, 6, 10])))
        (ar1_BIC (fitAR1OnDiff (map Fin [10, 6, 4, 6, 10]))) 2 3
   \<and> length (ma1_residuals (fitMA1OnDiff (map Fin [10, 6, 4, 6, 10]))) = 4
   \<and> ic_relation (ma1_AIC (fitMA1OnDiff (map Fin [10, 6, 4, 6, 10])))
        (ma1_BIC (fitMA1OnDiff (map Fin [10, 6, 4, 6, 10]))) 2 4
   \<and> length (arma_residuals (fitARMA11OnDiff (map Fin [10, 6, 4, 6, 10]))) = 3
   \<and> ic_relation (arma_AIC (fitARMA11OnDiff (map Fin [10, 6, 4, 6, 10])))
        (arma_BIC (fitARMA11OnDiff (map Fin [10, 6, 4, 6, 10]))) 3 3"
proof -
  have a: "length (ar1_residuals (fitAR1OnDiff (map Fin [10, 6, 4, 6, 10]))) = 3"
    using fitAR1OnDiff_closed_form [of "[10, 6, 4, 6, 10]"] by (simp add: spec_ar1_residuals_def)
  have m: "length (ma1_residuals (fitMA1OnDiff (map Fin [10, 6, 4, 6, 10]))) = 4"
    using fitMA1OnDiff_residuals_finite(2) [of "[10, 6, 4, 6, 10]"] by simp
  have r: "length (arma_residuals (fitARMA11OnDiff (map Fin [10, 6, 4, 6, 10]))) = 3"
    using fitARMA11OnDiff_residuals_finite(2) [of "[10, 6, 4, 6, 10]"] by simp
  show ?thesis
    using C3_aic_bic_relation [of "[10, 6, 4, 6, 10]"] a m r
    by auto
qed

section \<open>The partial autocorrelations (C7) and the two autocorrelation helpers (C10)\<close>

declare spec_pacf.simps [simp del]

lemma pacf_loop_0: "pacf_loop acf 0 = [Fin 1]"
  by (simp add: pacf_loop_def)

lemma pacf_loop_Suc: "pacf_loop acf (Suc n) = pacf_loop acf n @ [pacf_step acf (pacf_loop acf n) (Suc n)]"
  by (simp add: pacf_loop_def)

lemma length_pacf_loop: "length (pacf_loop acf n) = Suc n"
  by (induction n) (simp_all add: pacf_loop_0 pacf_loop_Suc)

lemma pacf_loop_prefix: "k \<le> n \<Longrightarrow> n \<le> m \<Longrightarrow> pacf_loop acf m ! k = pacf_loop acf n ! k"
proof (induction m)
  case 0
  then show ?case by simp
next
  case (Suc m)
  show ?case
  proof (cases "n = Suc m")
    case True
    then show ?thesis by simp
  next
    case False
    with Suc.prems have "n \<le> m" by simp
    with Suc show ?thesis
      by (simp add: pacf_loop_Suc nth_append length_pacf_loop)
  qed
qed

lemma pacf_step_cong:
  assumes "\<And>j. 1 \<le> j \<Longrightarrow> j < k \<Longrightarrow> jnth p j = jnth q j"
  shows "pacf_step acf p k = pacf_step acf q k"
proof -
  have "foldl (\<lambda>numerator j. numerator - jnth p j * jnth acf (k - j)) (jnth acf k) [1..<k]
        = foldl (\<lambda>numerator j. numerator - jnth q j * jnth acf (k - j)) (jnth acf k) [1..<k]"
    by (rule foldl_cong) (simp_all add: assms)
  then show ?thesis by (simp add: pacf_step_def Let_def)
qed

lemma pacf_loop_nth:
  assumes "1 \<le> k" "k \<le> n"
  shows "pacf_loop acf n ! k = pacf_step acf (pacf_loop acf n) k"
proof -
  obtain k' where k: "k = Suc k'" using assms(1) by (cases k) simp_all
  have "pacf_loop acf n ! k = pacf_loop acf k ! k"
    using assms(2) by (intro pacf_loop_prefix) simp_all
  also have "\<dots> = pacf_step acf (pacf_loop acf k') k"
    by (simp add: k pacf_loop_Suc nth_append length_pacf_loop)
  also have "\<dots> = pacf_step acf (pacf_loop acf n) k"
  proof (rule pacf_step_cong)
    fix j assume "1 \<le> j" "j < k"
    then have "pacf_loop acf n ! j = pacf_loop acf k' ! j"
      using assms(2) k by (intro pacf_loop_prefix) simp_all
    then show "jnth (pacf_loop acf k') j = jnth (pacf_loop acf n) j"
      using \<open>j < k\<close> assms(2) k by (simp add: jnth_def length_pacf_loop)
  qed
  finally show ?thesis .
qed

lemma length_calculateACF: "length (calculateACF data maxLags) = Suc maxLags"
  by (simp add: calculateACF_def Let_def)

lemma calculatePACF_structure:
  "length (calculatePACF data maxLags) = maxLags + 1"
  "calculatePACF data maxLags ! 0 = Fin 1"
  "1 \<le> maxLags \<Longrightarrow> calculatePACF data maxLags ! 1 = calculateACF data maxLags ! 1"
  "2 \<le> k \<Longrightarrow> k \<le> maxLags \<Longrightarrow>
     calculatePACF data maxLags ! k =
       foldl (\<lambda>numerator j. numerator - calculatePACF data maxLags ! j * calculateACF data maxLags ! (k - j))
         (calculateACF data maxLags ! k) [1..<k] / Fin 1"
proof -
  define acf where "acf = calculateACF data maxLags"
  have la: "length acf = Suc maxLags" by (simp add: acf_def length_calculateACF)
  have P: "calculatePACF data maxLags = pacf_loop acf maxLags"
    by (simp add: calculatePACF_def acf_def)
  show "length (calculatePACF data maxLags) = maxLags + 1"
    by (simp add: P length_pacf_loop)
  have "pacf_loop acf maxLags ! 0 = pacf_loop acf 0 ! 0"
    by (intro pacf_loop_prefix) simp_all
  then show "calculatePACF data maxLags ! 0 = Fin 1"
    by (simp add: P pacf_loop_0)
  show "calculatePACF data maxLags ! 1 = calculateACF data maxLags ! 1" if "1 \<le> maxLags"
    using pacf_loop_nth [of 1 maxLags acf] that la
    by (simp add: P pacf_step_def jnth_def acf_def)
  show "calculatePACF data maxLags ! k =
       foldl (\<lambda>numerator j. numerator - calculatePACF data maxLags ! j * calculateACF data maxLags ! (k - j))
         (calculateACF data maxLags ! k) [1..<k] / Fin 1" if "2 \<le> k" "k \<le> maxLags"
  proof -
    have "foldl (\<lambda>numerator j. numerator - jnth (pacf_loop acf maxLags) j * jnth acf (k - j)) (jnth acf k) [1..<k]
          = foldl (\<lambda>numerator j. numerator - pacf_loop acf maxLags ! j * acf ! (k - j)) (acf ! k) [1..<k]"
      using that la by (intro foldl_cong) (auto simp add: jnth_def length_pacf_loop)
    then show ?thesis
      using pacf_loop_nth [of k maxLags acf] that
      by (simp add: P pacf_step_def Let_def acf_def[symmetric])
  qed
qed

lemma foldl_minus_Fin:
  assumes "\<And>j. j \<in> set js \<Longrightarrow> g j = Fin (f j)"
  shows "foldl (\<lambda>numerator j. numerator - g j) (Fin c) js = Fin (c - sum_list (map f js))"
  using assms by (induction js arbitrary: c) (simp_all add: algebra_simps)

lemma pacf_loop_Fin:
  assumes "acf = map (\<lambda>k. Fin (a k)) [0..<Suc m]" "n \<le> m"
  shows "pacf_loop acf n = map (\<lambda>k. Fin (spec_pacf a k)) [0..<Suc n]"
  using assms(2)
proof (induction n)
  case 0
  then show ?case by (simp add: pacf_loop_0 spec_pacf.simps)
next
  case (Suc n)
  then have IH: "pacf_loop acf n = map (\<lambda>k. Fin (spec_pacf a k)) [0..<Suc n]" by simp
  have acf_nth: "jnth acf k = Fin (a k)" if "k \<le> m" for k
    using that by (simp add: assms(1) jnth_def nth_append del: upt_Suc)
  have "pacf_step acf (pacf_loop acf n) (Suc n) = Fin (spec_pacf a (Suc n))"
  proof (cases "n = 0")
    case True
    then show ?thesis
      using acf_nth [of 1] Suc.prems by (simp add: pacf_step_def spec_pacf.simps)
  next
    case False
    have "foldl (\<lambda>numerator j. numerator - jnth (pacf_loop acf n) j * jnth acf (Suc n - j))
            (Fin (a (Suc n))) [1..<Suc n]
          = Fin (a (Suc n) - sum_list (map (\<lambda>j. spec_pacf a j * a (Suc n - j)) [1..<Suc n]))"
    proof (rule foldl_minus_Fin)
      fix j assume "j \<in> set [1..<Suc n]"
      then have j: "1 \<le> j" "j \<le> n" by auto
      then have "jnth (pacf_loop acf n) j = Fin (spec_pacf a j)"
        by (simp add: IH jnth_def del: upt_Suc)
      moreover have "jnth acf (Suc n - j) = Fin (a (Suc n - j))"
        using j Suc.prems by (intro acf_nth) simp
      ultimately show "jnth (pacf_loop acf n) j * jnth acf (Suc n - j) = Fin (spec_pacf a j * a (Suc n - j))"
        by simp
    qed
    moreover have "sum_list (map (\<lambda>j. spec_pacf a j * a (Suc n - j)) [1..<Suc n])
                   = (\<Sum>j = 1..<Suc n. spec_pacf a j * a (Suc n - j))"
      by (simp add: interv_sum_list_conv_sum_set_nat del: upt_Suc)
    moreover have "spec_pacf a (Suc n) = a (Suc n) - (\<Sum>j = 1..<Suc n. spec_pacf a j * a (Suc n - j))"
      using False by (subst spec_pacf.simps) simp
    ultimately show ?thesis
      using False acf_nth [of "Suc n"] Suc.prems
      by (simp add: pacf_step_def Let_def del: upt_Suc)
  qed
  then show ?case
    by (simp add: pacf_loop_Suc IH)
qed

lemma css_nonempty: "centered_sum_of_squares xs \<noteq> 0 \<Longrightarrow> xs \<noteq> []"
  by (auto simp add: centered_sum_of_squares_def)

lemma acf_numerator_Fin:
  fixes xs :: "real list"
  defines "n \<equiv> length xs"
  shows "foldl (\<lambda>acc i. acc + (jnth (map Fin xs) i - Fin c) * (jnth (map Fin xs) (i + lag) - Fin c))
           (Fin 0) [0..<n - lag]
         = Fin (\<Sum>i < n - lag. (xs ! i - c) * (xs ! (i + lag) - c))"
proof -
  have "foldl (\<lambda>acc i. acc + (jnth (map Fin xs) i - Fin c) * (jnth (map Fin xs) (i + lag) - Fin c))
           (Fin 0) [0..<n - lag]
        = Fin (0 + sum_list (map (\<lambda>i. (xs ! i - c) * (xs ! (i + lag) - c)) [0..<n - lag]))"
    by (rule foldl_Fin_index) (auto simp add: n_def)
  then show ?thesis
    by (simp add: interv_sum_list_conv_sum_set_nat atLeast0LessThan)
qed

lemma acf_denominator_Fin:
  "foldl (\<lambda>acc i. acc + Math_pow (jnth (map Fin xs) i - Fin c) (Fin 2)) (Fin 0) [0..<length xs]
     = Fin (\<Sum>i < length xs. (xs ! i - c)\<^sup>2)"
proof -
  have "foldl (\<lambda>acc i. acc + Math_pow (jnth (map Fin xs) i - Fin c) (Fin 2)) (Fin 0) [0..<length xs]
        = Fin (0 + sum_list (map (\<lambda>i. (xs ! i - c) * (xs ! i - c)) [0..<length xs]))"
    by (rule foldl_Fin_index) auto
  then show ?thesis
    by (simp add: interv_sum_list_conv_sum_set_nat atLeast0LessThan power2_eq_square)
qed

lemma calculateACF_Fin:
  assumes "centered_sum_of_squares xs \<noteq> 0"
  shows "calculateACF (map Fin xs) m = map (\<lambda>k. Fin (spec_acf xs k)) [0..<Suc m]"
proof -
  define mu where "mu = sum_list xs / real (length xs)"
  have ne: "xs \<noteq> []" using assms by (rule css_nonempty)
  then have mean: "jsum (map Fin xs) / jnum (length xs) = Fin mu"
    by (simp add: jsum_Fin mu_def)
  have den: "(\<Sum>i < length xs. (xs ! i - mu)\<^sup>2) \<noteq> 0"
    using assms by (simp add: centered_sum_of_squares_def mu_def)
  show ?thesis
    unfolding calculateACF_def Let_def mean length_map acf_numerator_Fin acf_denominator_Fin
    using den by (simp add: spec_acf_def Let_def mu_def del: upt_Suc)
qed

lemma autocorr_numerator_Fin:
  fixes xs :: "real list"
  assumes "k \<le> length xs"
  shows "foldl (\<lambda>num t. num + (jnth (map Fin xs) t - Fin c) * (jnth (map Fin xs) (t - k) - Fin c))
           (Fin 0) [k..<length xs]
         = Fin (\<Sum>i < length xs - k. (xs ! i - c) * (xs ! (i + k) - c))"
proof -
  have "foldl (\<lambda>num t. num + (jnth (map Fin xs) t - Fin c) * (jnth (map Fin xs) (t - k) - Fin c))
           (Fin 0) [k..<length xs]
        = Fin (0 + sum_list (map (\<lambda>t. (xs ! t - c) * (xs ! (t - k) - c)) [k..<length xs]))"
    by (rule foldl_Fin_index) auto
  moreover have "sum_list (map (\<lambda>t. (xs ! t - c) * (xs ! (t - k) - c)) [k..<length xs])
                 = (\<Sum>t = 0 + k..<(length xs - k) + k. (xs ! t - c) * (xs ! (t - k) - c))"
    using assms by (simp add: interv_sum_list_conv_sum_set_nat)
  moreover have "\<dots> = (\<Sum>i = 0..<length xs - k. (xs ! (i + k) - c) * (xs ! (i + k - k) - c))"
    by (rule sum.shift_bounds_nat_ivl)
  ultimately show ?thesis
    by (simp add: atLeast0LessThan mult.commute)
qed

lemma autocorr_denominator_Fin:
  "foldl (\<lambda>denom i. denom + (jnth (map Fin xs) i - Fin c) * (jnth (map Fin xs) i - Fin c))
      (Fin 0) [0..<length xs]
     = Fin (\<Sum>i < length xs. (xs ! i - c)\<^sup>2)"
proof -
  have "foldl (\<lambda>denom i. denom + (jnth (map Fin xs) i - Fin c) * (jnth (map Fin xs) i - Fin c))
          (Fin 0) [0..<length xs]
        = Fin (0 + sum_list (map (\<lambda>i. (xs ! i - c) * (xs ! i - c)) [0..<length xs]))"
    by (rule foldl_Fin_index) auto
  then show ?thesis
    by (simp add: Let_def interv_sum_list_conv_sum_set_nat atLeast0LessThan power2_eq_square)
qed

lemma computeAutocorrelations_Fin:
  assumes "centered_sum_of_squares xs \<noteq> 0" "m + 1 \<le> length xs"
  shows "computeAutocorrelations (map Fin xs) m = map (\<lambda>k. Fin (spec_acf xs k)) [1..<Suc m]"
proof -
  define mu where "mu = sum_list xs / real (length xs)"
  have ne: "xs \<noteq> []" using assms(1) by (rule css_nonempty)
  then have mean: "jsum (map Fin xs) / jnum (length xs) = Fin mu"
    by (simp add: jsum_Fin mu_def)
  have den: "(\<Sum>i < length xs. (xs ! i - mu)\<^sup>2) \<noteq> 0"
    using assms(1) by (simp add: centered_sum_of_squares_def mu_def)
  have g: "\<not> length (map Fin xs) < m + 1" using assms(2) by simp
  have acf_k: "spec_acf xs k = (\<Sum>i < length xs - k. (xs ! i - mu) * (xs ! (i + k) - mu))
                               / (\<Sum>i < length xs. (xs ! i - mu)\<^sup>2)" if "1 \<le> k" for k
    using that by (simp add: spec_acf_def mu_def Let_def)
  have num: "foldl (\<lambda>num t. num + (jnth (map Fin xs) t - Fin mu) * (jnth (map Fin xs) (t - k) - Fin mu))
           (Fin 0) [k..<length xs]
         = Fin (\<Sum>i < length xs - k. (xs ! i - mu) * (xs ! (i + k) - mu))" if "k \<le> m" for k
    using that assms(2) by (intro autocorr_numerator_Fin) auto
  have "map (\<lambda>k. let num = foldl (\<lambda>num t. num + (jnth (map Fin xs) t - Fin mu) * (jnth (map Fin xs) (t - k) - Fin mu))
                              (Fin 0) [k..<length xs]
                  in if truthy (Fin (\<Sum>i < length xs. (xs ! i - mu)\<^sup>2))
                     then num / Fin (\<Sum>i < length xs. (xs ! i - mu)\<^sup>2) else Fin 0)
             [1..<Suc m]
        = map (\<lambda>k. Fin (spec_acf xs k)) [1..<Suc m]"
    using den by (intro map_cong refl) (auto simp add: num acf_k Let_def simp del: upt_Suc)
  then show ?thesis
    unfolding computeAutocorrelations_def Let_def mean length_map autocorr_denominator_Fin
    using g by (simp del: upt_Suc)
qed

text \<open>
  C10. On a finite sequence \<open>xs\<close> with nonzero centered sum of squares, and \<open>m\<close> with
  \<open>m + 1 \<le> length xs\<close>, entry \<open>k - 1\<close> of \<open>computeAutocorrelations xs m\<close> equals entry
  \<open>k\<close> of \<open>calculateACF\<close> (for any \<open>maxLags \<ge> k\<close>), for every \<open>k\<close> from 1 to \<open>m\<close>: both
  are the finite number \<open>spec_acf xs k\<close>.
\<close>

theorem C10_autocorrelation_helpers_agree:
  assumes "centered_sum_of_squares xs \<noteq> 0" and "m + 1 \<le> length xs"
    and "1 \<le> k" and "k \<le> m" and "k \<le> maxLags"
  shows "computeAutocorrelations (map Fin xs) m ! (k - 1) = calculateACF (map Fin xs) maxLags ! k
         \<and> calculateACF (map Fin xs) maxLags ! k = Fin (spec_acf xs k)"
proof -
  have "[1..<Suc m] ! (k - 1) = k"
    using assms(3,4) by (simp add: nth_upt del: upt_Suc)
  then have "computeAutocorrelations (map Fin xs) m ! (k - 1) = Fin (spec_acf xs k)"
    using assms(3,4) by (simp add: computeAutocorrelations_Fin [OF assms(1,2)] del: upt_Suc)
  moreover have "calculateACF (map Fin xs) maxLags ! k = Fin (spec_acf xs k)"
    using assms(5) by (simp add: calculateACF_Fin [OF assms(1)] del: upt_Suc)
  ultimately show ?thesis by simp
qed

lemma css_example: "centered_sum_of_squares [- 4, - 2, 2, 4] = 40"
  by (simp add: centered_sum_of_squares_def eval_nat_numeral)

lemma spec_acf_example:
  "spec_acf [- 4, - 2, 2, 4] 1 = 0.3" "spec_acf [- 4, - 2, 2, 4] 2 = - 0.4"
  "spec_acf [- 4, - 2, 2, 4] (Suc 0) = 0.3"
  by (simp_all add: spec_acf_def eval_nat_numeral)

theorem C10_autocorrelation_helpers_agree_witness:
  "computeAutocorrelations (map Fin [- 4, - 2, 2, 4]) 2 ! (2 - 1)
     = calculateACF (map Fin [- 4, - 2, 2, 4]) 5 ! 2
   \<and> calculateACF (map Fin [- 4, - 2, 2, 4]) 5 ! 2 = Fin (- 0.4)"
  using C10_autocorrelation_helpers_agree [of "[- 4, - 2, 2, 4]" 2 2 5]
  by (simp add: css_example spec_acf_example)

text \<open>
  C7. For every array and every \<open>maxLags \<ge> 1\<close>, \<open>calculatePACF\<close> returns \<open>maxLags + 1\<close>
  entries; entry 0 is 1, entry 1 is entry 1 of the ACF, and entry \<open>k \<ge> 2\<close> is entry \<open>k\<close> of
  the ACF from which the products \<open>PACF(j) * ACF(k - j)\<close>, \<open>j\<close> from 1 to \<open>k - 1\<close>, are
  subtracted in turn, divided by 1. On a finite sequence with nonzero centered sum of
  squares the entries are the real numbers of the specification's recursion on the
  specification's autocorrelations.
\<close>

theorem C7_pacf_recursion:
  "(1 \<le> maxLags \<longrightarrow>
      length (calculatePACF data maxLags) = maxLags + 1
      \<and> calculatePACF data maxLags ! 0 = Fin 1
      \<and> calculatePACF data maxLags ! 1 = calculateACF data maxLags ! 1
      \<and> (\<forall>k. 2 \<le> k \<and> k \<le> maxLags \<longrightarrow>
            calculatePACF data maxLags ! k =
              foldl (\<lambda>numerator j.
                       numerator - calculatePACF data maxLags ! j * calculateACF data maxLags ! (k - j))
                (calculateACF data maxLags ! k) [1..<k] / Fin 1))
   \<and> (centered_sum_of_squares xs \<noteq> 0 \<longrightarrow>
      calculatePACF (map Fin xs) maxLags
        = map (\<lambda>k. Fin (spec_pacf (spec_acf xs) k)) [0..<Suc maxLags])"
proof -
  have "calculatePACF (map Fin xs) maxLags
        = map (\<lambda>k. Fin (spec_pacf (spec_acf xs) k)) [0..<Suc maxLags]"
    if "centered_sum_of_squares xs \<noteq> 0"
    unfolding calculatePACF_def Let_def
    by (rule pacf_loop_Fin [OF calculateACF_Fin [OF that]]) simp
  then show ?thesis
    using calculatePACF_structure [where data = data and maxLags = maxLags] by blast
qed

lemma spec_pacf_example:
  "spec_pacf a 0 = 1" "spec_pacf a (Suc 0) = a 1" "spec_pacf a (Suc (Suc 0)) = a 2 - a 1 * a 1"
  by (subst spec_pacf.simps, simp add: eval_nat_numeral)+

theorem C7_pacf_recursion_witness:
  "length (calculatePACF (map Fin [- 4, - 2, 2, 4]) 2) = 3
   \<and> calculatePACF (map Fin [- 4, - 2, 2, 4]) 2 ! 1 = calculateACF (map Fin [- 4, - 2, 2, 4]) 2 ! 1
   \<and> calculatePACF (map Fin [- 4, - 2, 2, 4]) 2 = [Fin 1, Fin 0.3, Fin (- 0.49)]"
  using C7_pacf_recursion [of 2 "map Fin [- 4, - 2, 2, 4]" "[- 4, - 2, 2, 4]"]
  by (auto simp add: css_example spec_acf_example spec_pacf_example upt_rec)

section \<open>Outliers (C8)\<close>

lemma sort_insert_Fin:
  "sorted ys \<Longrightarrow> sort_insert (\<lambda>a b. a - b) (Fin x) (map Fin ys) = map Fin (insort x ys)"
proof (induction ys)
  case Nil
  then show ?case by simp
next
  case (Cons y ys)
  consider "x < y" | "x = y" | "y < x" by linarith
  then show ?case
  proof cases
    case 1
    then show ?thesis by simp
  next
    case 2
    have "insort x ys = x # ys"
      using Cons.prems 2 by (intro insort_is_Cons) auto
    then show ?thesis
      using Cons 2 by simp
  next
    case 3
    then show ?thesis using Cons by simp
  qed
qed

lemma foldl_insort_sorted:
  "sorted acc \<Longrightarrow> sorted (foldl (\<lambda>acc x. insort x acc) acc xs)"
  by (induction xs arbitrary: acc) (simp_all add: sorted_insort)

lemma foldl_insort_mset:
  "mset (foldl (\<lambda>acc x. insort x acc) acc xs) = mset acc + mset xs"
  by (induction xs arbitrary: acc) simp_all

lemma foldl_sort_insert_Fin:
  "sorted acc \<Longrightarrow>
   foldl (\<lambda>acc x. sort_insert (\<lambda>a b. a - b) x acc) (map Fin acc) (map Fin xs)
     = map Fin (foldl (\<lambda>acc x. insort x acc) acc xs)"
  by (induction xs arbitrary: acc) (simp_all add: sort_insert_Fin sorted_insort)

lemma Array_sort_Fin: "Array_sort (\<lambda>a b. a - b) (map Fin rs) = map Fin (sort rs)"
proof -
  have "sort rs = foldl (\<lambda>acc x. insort x acc) [] rs"
    by (rule properties_for_sort) (simp_all add: foldl_insort_mset foldl_insort_sorted)
  then show ?thesis
    using foldl_sort_insert_Fin [of "[]" rs] by (simp add: Array_sort_def)
qed

lemma floor_index_quartiles:
  "floor_index n (1 / 4) = n div 4" "floor_index n (3 / 4) = 3 * n div 4"
proof -
  have "real n * (1 / 4) = real n / real 4" "real n * (3 / 4) = real (3 * n) / real 4"
    by simp_all
  then show "floor_index n (1 / 4) = n div 4" "floor_index n (3 / 4) = 3 * n div 4"
    unfolding floor_index_def by (simp_all only: floor_divide_of_nat_eq nat_int)
qed

lemma filter_isFinite_Fin [simp]: "filter isFinite (map Fin rs) = map Fin rs"
  by (induction rs) simp_all

lemma stats_quartiles:
  assumes "rs \<noteq> []"
  shows "st_q1 (calculateDescriptiveStats (map Fin rs)) = Fin (sort rs ! (length rs div 4))"
    and "st_q3 (calculateDescriptiveStats (map Fin rs)) = Fin (sort rs ! (3 * length rs div 4))"
proof -
  have n: "0 < length rs" using assms by simp
  have i: "length rs div 4 < length rs" "3 * length rs div 4 < length rs"
    using n by (simp, linarith)
  have one: "sort rs ! 0 = rs ! 0" if len1: "length rs = 1"
  proof -
    obtain r where "rs = [r]" using len1 by (cases rs) simp_all
    then show ?thesis by simp
  qed
  show "st_q1 (calculateDescriptiveStats (map Fin rs)) = Fin (sort rs ! (length rs div 4))"
    using n i one
    by (simp add: calculateDescriptiveStats_def Let_def Array_sort_Fin floor_index_quartiles)
  show "st_q3 (calculateDescriptiveStats (map Fin rs)) = Fin (sort rs ! (3 * length rs div 4))"
    using n i one
    by (simp add: calculateDescriptiveStats_def Let_def Array_sort_Fin floor_index_quartiles)
qed

lemma foldl_push_filter:
  "foldl (\<lambda>acc (i, p). if P i p then acc @ [f i p] else acc) acc0 xs
     = acc0 @ map (\<lambda>(i, p). f i p) (filter (\<lambda>(i, p). P i p) xs)"
  by (induction xs arbitrary: acc0) (auto split: prod.splits)

lemma zip_index_Fin: "zip [0..<length rs] (map Fin rs) = map (\<lambda>i. (i, Fin (rs ! i))) [0..<length rs]"
  by (rule nth_equalityI) simp_all

lemma detectOutliers_Fin: "detectOutliers (map Fin rs) = spec_outliers rs"
proof (cases "rs = []")
  case True
  then show ?thesis by (simp add: detectOutliers_def spec_outliers_def Let_def)
next
  case False
  define q1 where "q1 = sort rs ! (length rs div 4)"
  define q3 where "q3 = sort rs ! (3 * length rs div 4)"
  define lower where "lower = q1 - 1.5 * (q3 - q1)"
  define upper where "upper = q3 + 1.5 * (q3 - q1)"
  have q: "st_q1 (calculateDescriptiveStats (map Fin rs)) = Fin q1"
    "st_q3 (calculateDescriptiveStats (map Fin rs)) = Fin q3"
    using stats_quartiles [OF False] by (simp_all add: q1_def q3_def)
  have b: "Fin q1 - Fin 1.5 * (Fin q3 - Fin q1) = Fin lower"
    "Fin q3 + Fin 1.5 * (Fin q3 - Fin q1) = Fin upper"
    by (simp_all add: lower_def upper_def)
  have "detectOutliers (map Fin rs)
        = map (\<lambda>(i, p). \<lparr>ol_index = i, ol_price = p,
                            ol_type = (if jlt p (Fin lower) then inferior else superior)\<rparr>)
            (filter (\<lambda>(i, p). jlt p (Fin lower) \<or> jgt p (Fin upper))
               (zip [0..<length (map Fin rs)] (map Fin rs)))"
    unfolding detectOutliers_def Let_def q b
    by (simp only: foldl_push_filter append_Nil)
  also have "\<dots> = map (\<lambda>i. \<lparr>ol_index = i, ol_price = Fin (rs ! i),
                     ol_type = (if rs ! i < lower then inferior else superior)\<rparr>)
           (filter (\<lambda>i. rs ! i < lower \<or> upper < rs ! i) [0..<length rs])"
    by (simp add: zip_index_Fin filter_map o_def jgt_def)
  finally show ?thesis
    by (simp add: spec_outliers_def Let_def q1_def q3_def lower_def upper_def)
qed

lemma spec_outliers_example:
  "spec_outliers [1, 2, 3, 4, 5, 100] = [\<lparr>ol_index = 5, ol_price = Fin 100, ol_type = superior\<rparr>]"
proof -
  have "sort [1, 2, 3, 4, 5, 100 :: real] = [1, 2, 3, 4, 5, 100]"
    by simp
  moreover have "[0..<6] = [0, 1, 2, 3, 4, 5]"
    by (simp add: upt_rec)
  ultimately show ?thesis
    unfolding spec_outliers_def Let_def by simp
qed

text \<open>
  C8. On every finite sequence \<open>detectOutliers\<close> returns exactly the outliers of the
  1.5 IQR rule with the quartiles at the sorted indices \<open>floor(n * 0.25)\<close> and
  \<open>floor(n * 0.75)\<close>, each with its index and its tag. On 1, 2, 3, 4, 5, 100 the one
  outlier is 100, at index 5, above the upper bound.
\<close>

theorem C8_outliers:
  "detectOutliers (map Fin rs) = spec_outliers rs
   \<and> detectOutliers [Fin 1, Fin 2, Fin 3, Fin 4, Fin 5, Fin 100]
       = [\<lparr>ol_index = 5, ol_price = Fin 100, ol_type = superior\<rparr>]"
  using detectOutliers_Fin [of rs] detectOutliers_Fin [of "[1, 2, 3, 4, 5, 100]"]
  by (simp add: spec_outliers_example)

section \<open>Model ranking (C2)\<close>

lemma set_sort_insert: "set (sort_insert cmp x ys) = insert x (set ys)"
  by (induction ys) auto

lemma mset_sort_insert: "mset (sort_insert cmp x ys) = add_mset x (mset ys)"
  by (induction ys) auto

lemma sorted_wrt_sort_insert:
  assumes lt: "\<And>a b. Q a \<Longrightarrow> Q b \<Longrightarrow> jlt (cmp a b) (Fin 0) \<Longrightarrow> le a b"
    and nlt: "\<And>a b. Q a \<Longrightarrow> Q b \<Longrightarrow> \<not> jlt (cmp a b) (Fin 0) \<Longrightarrow> le b a"
    and trans: "\<And>a b c. Q a \<Longrightarrow> Q b \<Longrightarrow> Q c \<Longrightarrow> le a b \<Longrightarrow> le b c \<Longrightarrow> le a c"
    and "Q x" "list_all Q ys" "sorted_wrt le ys"
  shows "sorted_wrt le (sort_insert cmp x ys)"
  using assms(4-)
proof (induction ys)
  case Nil
  then show ?case by simp
next
  case (Cons y ys)
  then have Q: "Q x" "Q y" "\<forall>z\<in>set ys. Q z" and s: "\<forall>z\<in>set ys. le y z" "sorted_wrt le ys"
    by (simp_all add: list_all_iff)
  show ?case
  proof (cases "jlt (cmp x y) (Fin 0)")
    case True
    then have "le x y" using lt Q by blast
    moreover from this have "\<forall>z\<in>set ys. le x z"
      using trans Q s(1) by blast
    ultimately show ?thesis
      using True s by simp
  next
    case False
    then have "le y x" using nlt Q by blast
    moreover have "sorted_wrt le (sort_insert cmp x ys)"
      using Cons.IH Q s(2) by (simp add: list_all_iff)
    ultimately show ?thesis
      using False s(1) by (simp add: set_sort_insert)
  qed
qed

lemma Array_sort_props:
  assumes lt: "\<And>a b. Q a \<Longrightarrow> Q b \<Longrightarrow> jlt (cmp a b) (Fin 0) \<Longrightarrow> le a b"
    and nlt: "\<And>a b. Q a \<Longrightarrow> Q b \<Longrightarrow> \<not> jlt (cmp a b) (Fin 0) \<Longrightarrow> le b a"
    and trans: "\<And>a b c. Q a \<Longrightarrow> Q b \<Longrightarrow> Q c \<Longrightarrow> le a b \<Longrightarrow> le b c \<Longrightarrow> le a c"
    and "list_all Q xs"
  shows "sorted_wrt le (Array_sort cmp xs)" and "mset (Array_sort cmp xs) = mset xs"
proof -
  have "sorted_wrt le (foldl (\<lambda>acc x. sort_insert cmp x acc) acc xs)
        \<and> mset (foldl (\<lambda>acc x. sort_insert cmp x acc) acc xs) = mset acc + mset xs"
    if "list_all Q acc" "sorted_wrt le acc" "list_all Q xs" for acc
    using that
  proof (induction xs arbitrary: acc)
    case Nil
    then show ?case by simp
  next
    case (Cons x xs)
    have "sorted_wrt le (sort_insert cmp x acc)"
    proof (rule sorted_wrt_sort_insert [where Q = Q])
      show "Q a \<Longrightarrow> Q b \<Longrightarrow> jlt (cmp a b) (Fin 0) \<Longrightarrow> le a b" for a b
        by (rule lt)
      show "Q a \<Longrightarrow> Q b \<Longrightarrow> \<not> jlt (cmp a b) (Fin 0) \<Longrightarrow> le b a" for a b
        by (rule nlt)
      show "Q a \<Longrightarrow> Q b \<Longrightarrow> Q c \<Longrightarrow> le a b \<Longrightarrow> le b c \<Longrightarrow> le a c" for a b c
        by (rule trans)
      show "Q x" "list_all Q acc" "sorted_wrt le acc"
        using Cons.prems by simp_all
    qed
    moreover have "list_all Q (sort_insert cmp x acc)"
      using Cons.prems by (simp add: list_all_iff set_sort_insert)
    ultimately show ?case
      using Cons.IH [of "sort_insert cmp x acc"] Cons.prems by (simp add: mset_sort_insert)
  qed
  from this [of "[]"] assms(4)
  show "sorted_wrt le (Array_sort cmp xs)" and "mset (Array_sort cmp xs) = mset xs"
    by (simp_all add: Array_sort_def)
qed

lemma model_cmp_lt:
  "finite_criteria a \<Longrightarrow> finite_criteria b \<Longrightarrow> jlt (model_cmp a b) (Fin 0) \<Longrightarrow> ranks_before a b"
  by (auto simp add: finite_criteria_def isFinite_iff model_cmp_def jor_def ranks_before_def jeq_def
      split: if_splits)

lemma model_cmp_nlt:
  "finite_criteria a \<Longrightarrow> finite_criteria b \<Longrightarrow> \<not> jlt (model_cmp a b) (Fin 0) \<Longrightarrow> ranks_before b a"
  by (auto simp add: finite_criteria_def isFinite_iff model_cmp_def jor_def ranks_before_def jeq_def
      split: if_splits)

lemma ranks_before_trans:
  "finite_criteria a \<Longrightarrow> finite_criteria b \<Longrightarrow> finite_criteria c \<Longrightarrow>
   ranks_before a b \<Longrightarrow> ranks_before b c \<Longrightarrow> ranks_before a c"
  by (auto simp add: finite_criteria_def isFinite_iff ranks_before_def jeq_def)

lemma extend_fields [simp]:
  "m_AIC (model.extend m r) = m_AIC m" "m_BIC (model.extend m r) = m_BIC m"
  "m_rank (model.extend m \<lparr>m_rank = k\<rparr>) = k"
  "model.truncate (model.extend (m :: model) r) = m"
  by (simp_all add: model.defs ranked_model.defs)

lemma rank_models_nth:
  fixes cs :: "model list"
  defines "ms \<equiv> Array_sort model_cmp (filter finite_criteria cs)"
  shows "rank_models cs = map (\<lambda>i. model.extend (ms ! i) \<lparr>m_rank = i + 1\<rparr>) [0..<length ms]"
proof -
  have "zip [0..<length ms] ms = map (\<lambda>i. (i, ms ! i)) [0..<length ms]"
    by (rule nth_equalityI) simp_all
  then show ?thesis
    by (simp add: rank_models_def ms_def finite_criteria_def [abs_def] Let_def o_def)
qed

lemma rank_models_props:
  fixes cs :: "model list"
  shows "mset (map model.truncate (rank_models cs)) = mset (filter finite_criteria cs)"
    and "sorted_wrt ranks_before (rank_models cs)"
    and "map m_rank (rank_models cs) = [1..<Suc (length (rank_models cs))]"
proof -
  define ms where "ms = Array_sort model_cmp (filter finite_criteria cs)"
  have r: "rank_models cs = map (\<lambda>i. model.extend (ms ! i) \<lparr>m_rank = i + 1\<rparr>) [0..<length ms]"
    unfolding ms_def by (rule rank_models_nth)
  have fin: "list_all finite_criteria (filter finite_criteria cs)"
    by (simp add: list_all_iff)
  have s: "sorted_wrt ranks_before ms" and m: "mset ms = mset (filter finite_criteria cs)"
    unfolding ms_def
    by (rule Array_sort_props [where Q = finite_criteria, OF model_cmp_lt model_cmp_nlt ranks_before_trans fin];
        assumption)+
  have "map model.truncate (rank_models cs) = ms"
    by (rule nth_equalityI) (simp_all add: r)
  then show "mset (map model.truncate (rank_models cs)) = mset (filter finite_criteria cs)"
    using m by simp
  show "sorted_wrt ranks_before (rank_models cs)"
    using s by (simp add: r sorted_wrt_iff_nth_less ranks_before_def)
  show "map m_rank (rank_models cs) = [1..<Suc (length (rank_models cs))]"
    by (rule nth_equalityI) (simp_all add: r del: upt_Suc)
qed

lemma rank_models_example:
  "map (\<lambda>r. (m_rank r, m_AIC r))
     (rank_models
        [\<lparr>m_name = n1, m_AIC = Fin 10, m_BIC = Fin b1, m_logL = l1, m_k = k1\<rparr>,
         \<lparr>m_name = n2, m_AIC = Fin 5, m_BIC = Fin b2, m_logL = l2, m_k = k2\<rparr>,
         \<lparr>m_name = n3, m_AIC = Fin 7, m_BIC = Fin b3, m_logL = l3, m_k = k3\<rparr>])
   = [(1, Fin 5), (2, Fin 7), (3, Fin 10)]"
  by (simp add: rank_models_def Array_sort_def model_cmp_def jor_def truthy_def Let_def upt_rec)

lemma generateModelSelectionForStage2_Some:
  assumes "generateModelSelectionForStage2 container prices = Some out"
  shows "container" and "10 \<le> length prices"
    and "out = rank_models
           (candidate_models (fitAR1OnDiff prices) (fitMA1OnDiff prices) (fitARMA11OnDiff prices))"
  using assms by (auto simp add: generateModelSelectionForStage2_def Let_def split: if_splits)

text \<open>
  C2. The ranking keeps exactly the candidates whose AIC and BIC are finite, orders them
  by ascending AIC and, among equal AIC, ascending BIC, and numbers them 1 to N in that
  order; it is a function of the candidates. Three candidates with AIC 10, 5, 7 and
  finite BIC are ranked 5, 7, 10. \<open>generateModelSelectionForStage2\<close> ranks nothing exactly
  when the element of the page is missing or the series has fewer than ten prices; when
  it returns a ranking, that ranking holds the fits of the series with finite criteria,
  in this order, with ranks 1 to N.
\<close>

theorem C2_model_ranking:
  fixes cs :: "model list"
  shows "mset (map model.truncate (rank_models cs)) = mset (filter finite_criteria cs)
    \<and> sorted_wrt ranks_before (rank_models cs)
    \<and> map m_rank (rank_models cs) = [1..<Suc (length (rank_models cs))]
    \<and> map (\<lambda>r. (m_rank r, m_AIC r))
          (rank_models
             [\<lparr>m_name = n1, m_AIC = Fin 10, m_BIC = Fin b1, m_logL = l1, m_k = k1\<rparr>,
              \<lparr>m_name = n2, m_AIC = Fin 5, m_BIC = Fin b2, m_logL = l2, m_k = k2\<rparr>,
              \<lparr>m_name = n3, m_AIC = Fin 7, m_BIC = Fin b3, m_logL = l3, m_k = k3\<rparr>])
        = [(1, Fin 5), (2, Fin 7), (3, Fin 10)]
    \<and> (generateModelSelectionForStage2 container prices = None
          \<longleftrightarrow> \<not> container \<or> length prices < 10)
    \<and> (\<forall>out. generateModelSelectionForStage2 container prices = Some out \<longrightarrow>
          mset (map model.truncate out)
            = mset (filter finite_criteria
                (candidate_models (fitAR1OnDiff prices) (fitMA1OnDiff prices)
                   (fitARMA11OnDiff prices)))
          \<and> sorted_wrt ranks_before out
          \<and> map m_rank out = [1..<Suc (length out)])"
proof -
  have guard: "generateModelSelectionForStage2 container prices = None
        \<longleftrightarrow> \<not> container \<or> length prices < 10"
    by (simp add: generateModelSelectionForStage2_def Let_def)
  have some: "mset (map model.truncate out)
            = mset (filter finite_criteria
                (candidate_models (fitAR1OnDiff prices) (fitMA1OnDiff prices)
                   (fitARMA11OnDiff prices)))
          \<and> sorted_wrt ranks_before out
          \<and> map m_rank out = [1..<Suc (length out)]"
    if "generateModelSelectionForStage2 container prices = Some out" for out
    unfolding generateModelSelectionForStage2_Some(3) [OF that]
    by (simp only: rank_models_props simp_thms)
  have ranked: "\<forall>out. generateModelSelectionForStage2 container prices = Some out \<longrightarrow>
          mset (map model.truncate out)
            = mset (filter finite_criteria
                (candidate_models (fitAR1OnDiff prices) (fitMA1OnDiff prices)
                   (fitARMA11OnDiff prices)))
          \<and> sorted_wrt ranks_before out
          \<and> map m_rank out = [1..<Suc (length out)]"
    by (intro allI impI) (rule some)
  show ?thesis
    by (intro conjI rank_models_props rank_models_example guard ranked)
qed

theorem C2_model_ranking_witness:
  "\<exists>out. generateModelSelectionForStage2 True
            (map Fin [10, 6, 4, 6, 10, 12, 11, 9, 8, 10, 13]) = Some out
         \<and> sorted_wrt ranks_before out
         \<and> map m_rank out = [1..<Suc (length out)]
         \<and> generateModelSelectionForStage2 True (map Fin [10, 6, 4, 6, 10]) = None"
proof -
  have "\<not> length (map Fin [10, 6, 4, 6, 10, 12, 11, 9, 8, 10, 13 :: real]) < 10"
    by simp
  then obtain out where out:
    "generateModelSelectionForStage2 True (map Fin [10, 6, 4, 6, 10, 12, 11, 9, 8, 10, 13]) = Some out"
    unfolding generateModelSelectionForStage2_def Let_def by (simp only: simp_thms if_False)
  have none: "generateModelSelectionForStage2 True (map Fin [10, 6, 4, 6, 10]) = None"
    using C2_model_ranking [where container = True and prices = "map Fin [10, 6, 4, 6, 10]"]
    by simp
  show ?thesis
    using C2_model_ranking [where container = True
        and prices = "map Fin [10, 6, 4, 6, 10, 12, 11, 9, 8, 10, 13]"] out none
    by blast
qed

end
